theory Spec2Isabelle
  imports Complex_Main
begin

section \<open>Errors\<close>

text \<open>
  Every \<open>raise\<close> of the Python source is a value. A \<open>ValueError\<close> carries which raise it
  was: the first six are the \<open>raise ValueError(...)\<close> statements of
  \<open>parametrization/transforms.py\<close>, the last three are the \<open>ValueError\<close>s that numpy
  raises inside the expressions of that file (operands that cannot be broadcast together,
  the truth value of an array with more than one element, \<open>np.max\<close>/\<open>np.min\<close> of an
  empty array).
\<close>

datatype value_error =
    ZeroScale
  | BoundsNotOrdered
  | NoBound
  | BothBoundsNeeded
  | ShapesDoNotMatch
  | OutOfRange
  | BroadcastFailed
  | AmbiguousTruthValue
  | EmptyReduction

datatype error =
    ValueError value_error
  | NotImplementedError
  | TypeError
  | IndexError
  | AssertionError

section \<open>Floating-point values and one-dimensional arrays\<close>

text \<open>
  An element of a numpy array is a finite number or one of the three special values of IEEE
  arithmetic. The operations of this section are exact on finite numbers (no rounding, no
  overflow, one unsigned zero); the special values arise where numpy produces them from
  finite operands: a division by zero, the logarithm of a non-positive number, \<open>arctanh\<close>
  at and beyond \<open>\<plusminus>1\<close>. They serve the statements about errors, shapes and comparisons,
  which rounding does not touch; the rounding of binary64 has a section of its own below.
\<close>

datatype npfloat = Fin real | PInf | NInf | NaN

fun fneg :: "npfloat \<Rightarrow> npfloat" where
  "fneg (Fin a) = Fin (- a)"
| "fneg PInf = NInf"
| "fneg NInf = PInf"
| "fneg NaN = NaN"

fun fadd :: "npfloat \<Rightarrow> npfloat \<Rightarrow> npfloat" where
  "fadd (Fin a) (Fin b) = Fin (a + b)"
| "fadd NaN y = NaN"
| "fadd x NaN = NaN"
| "fadd PInf NInf = NaN"
| "fadd NInf PInf = NaN"
| "fadd PInf y = PInf"
| "fadd x PInf = PInf"
| "fadd NInf y = NInf"
| "fadd x NInf = NInf"

definition fsub :: "npfloat \<Rightarrow> npfloat \<Rightarrow> npfloat" where
  "fsub x y = fadd x (fneg y)"

fun fmul :: "npfloat \<Rightarrow> npfloat \<Rightarrow> npfloat" where
  "fmul (Fin a) (Fin b) = Fin (a * b)"
| "fmul NaN y = NaN"
| "fmul x NaN = NaN"
| "fmul (Fin a) PInf = (if a = 0 then NaN else if 0 < a then PInf else NInf)"
| "fmul (Fin a) NInf = (if a = 0 then NaN else if 0 < a then NInf else PInf)"
| "fmul PInf (Fin b) = (if b = 0 then NaN else if 0 < b then PInf else NInf)"
| "fmul NInf (Fin b) = (if b = 0 then NaN else if 0 < b then NInf else PInf)"
| "fmul PInf PInf = PInf"
| "fmul PInf NInf = NInf"
| "fmul NInf PInf = NInf"
| "fmul NInf NInf = PInf"

text \<open>numpy's true division: a zero divisor gives a special value (and a warning), no error.\<close>

fun fdiv :: "npfloat \<Rightarrow> npfloat \<Rightarrow> npfloat" where
  "fdiv (Fin a) (Fin b) =
     (if b \<noteq> 0 then Fin (a / b) else if a = 0 then NaN else if 0 < a then PInf else NInf)"
| "fdiv NaN y = NaN"
| "fdiv x NaN = NaN"
| "fdiv (Fin a) PInf = Fin 0"
| "fdiv (Fin a) NInf = Fin 0"
| "fdiv PInf (Fin b) = (if 0 \<le> b then PInf else NInf)"
| "fdiv NInf (Fin b) = (if 0 \<le> b then NInf else PInf)"
| "fdiv x y = NaN"

text \<open>The comparison \<open><\<close> of IEEE values: false as soon as one side is \<open>NaN\<close>.\<close>

fun fless :: "npfloat \<Rightarrow> npfloat \<Rightarrow> bool" where
  "fless (Fin a) (Fin b) = (a < b)"
| "fless NaN y = False"
| "fless x NaN = False"
| "fless x NInf = False"
| "fless PInf y = False"
| "fless NInf y = True"
| "fless x PInf = True"

definition fle :: "npfloat \<Rightarrow> npfloat \<Rightarrow> bool" where
  "fle x y = (fless x y \<or> (x = y \<and> x \<noteq> NaN))"

text \<open>\<open>np.maximum\<close> and \<open>np.minimum\<close> propagate \<open>NaN\<close>.\<close>

definition fmaximum :: "npfloat \<Rightarrow> npfloat \<Rightarrow> npfloat" where
  "fmaximum x y = (if x = NaN \<or> y = NaN then NaN else if fless x y then y else x)"

definition fminimum :: "npfloat \<Rightarrow> npfloat \<Rightarrow> npfloat" where
  "fminimum x y = (if x = NaN \<or> y = NaN then NaN else if fless y x then y else x)"

fun ftanh :: "npfloat \<Rightarrow> npfloat" where
  "ftanh (Fin a) = Fin (tanh a)"
| "ftanh PInf = Fin 1"
| "ftanh NInf = Fin (- 1)"
| "ftanh NaN = NaN"

fun farctanh :: "npfloat \<Rightarrow> npfloat" where
  "farctanh (Fin a) =
     (if \<bar>a\<bar> < 1 then Fin (artanh a) else if a = 1 then PInf else if a = - 1 then NInf else NaN)"
| "farctanh x = NaN"

fun farctan :: "npfloat \<Rightarrow> npfloat" where
  "farctan (Fin a) = Fin (arctan a)"
| "farctan PInf = Fin (pi / 2)"
| "farctan NInf = Fin (- (pi / 2))"
| "farctan NaN = NaN"

text \<open>
  The tangent has no value at its poles. No binary float is a pole, so numpy never sees one;
  with exact arithmetic the boundary of an \<open>ArctanBound\<close> is one, and the model gives
  \<open>NaN\<close> there.
\<close>

fun ftan :: "npfloat \<Rightarrow> npfloat" where
  "ftan (Fin a) = (if cos a = 0 then NaN else Fin (tan a))"
| "ftan x = NaN"

fun flog :: "npfloat \<Rightarrow> npfloat" where
  "flog (Fin a) = (if 0 < a then Fin (ln a) else if a = 0 then NInf else NaN)"
| "flog PInf = PInf"
| "flog x = NaN"

text \<open>\<open>base ** e\<close> for a finite Python float \<open>base\<close>, after C's \<open>pow\<close>.\<close>

fun fpow :: "real \<Rightarrow> npfloat \<Rightarrow> npfloat" where
  "fpow b (Fin e) =
     (if e = 0 \<or> b = 1 then Fin 1
      else if 0 < b then Fin (b powr e)
      else if b = 0 then (if 0 < e then Fin 0 else PInf)
      else if e = of_int \<lfloor>e\<rfloor> then Fin ((if even \<lfloor>e\<rfloor> then 1 else - 1) * ((- b) powr e))
      else NaN)"
| "fpow b NaN = (if b = 1 then Fin 1 else NaN)"
| "fpow b PInf = (if b = 1 \<or> b = - 1 then Fin 1 else if \<bar>b\<bar> < 1 then Fin 0 else PInf)"
| "fpow b NInf = (if b = 1 \<or> b = - 1 then Fin 1 else if \<bar>b\<bar> < 1 then PInf else Fin 0)"

text \<open>
  \<open>scipy.stats.norm\<close> is not code of this repository and the standard normal distribution
  has no definition in the library this development builds on: its distribution function
  and its quantile function on the open unit interval are parameters.
\<close>

record scipy_norm =
  cdf :: "real \<Rightarrow> real"
  ppf :: "real \<Rightarrow> real"

fun fcdf :: "scipy_norm \<Rightarrow> npfloat \<Rightarrow> npfloat" where
  "fcdf L (Fin a) = Fin (cdf L a)"
| "fcdf L PInf = Fin 1"
| "fcdf L NInf = Fin 0"
| "fcdf L NaN = NaN"

fun fppf :: "scipy_norm \<Rightarrow> npfloat \<Rightarrow> npfloat" where
  "fppf L (Fin q) =
     (if 0 < q \<and> q < 1 then Fin (ppf L q) else if q = 0 then NInf else if q = 1 then PInf else NaN)"
| "fppf L x = NaN"

text \<open>
  Arrays are one-dimensional (the optimizer's internal representation is a vector): an array
  is the list of its elements and its shape is the one-element tuple of its length.
\<close>

type_synonym ndarray = "npfloat list"

definition shape_of :: "'a list \<Rightarrow> nat list" where
  "shape_of xs = [length xs]"

text \<open>An elementwise binary operation, with numpy's broadcasting of one-dimensional operands.\<close>

definition broadcast2 :: "('a \<Rightarrow> 'b \<Rightarrow> 'c) \<Rightarrow> 'a list \<Rightarrow> 'b list \<Rightarrow> error + 'c list" where
  "broadcast2 f xs ys =
     (if length xs = length ys then Inr (map2 f xs ys)
      else if length xs = 1 then Inr (map (f (hd xs)) ys)
      else if length ys = 1 then Inr (map (\<lambda>x. f x (hd ys)) xs)
      else Inl (ValueError BroadcastFailed))"

text \<open>
  \<open>bool(array)\<close>, which \<open>if\<close>, \<open>and\<close> and \<open>or\<close> apply to their operands: the element of
  a one-element array, an error for more than one element, \<open>False\<close> for an empty array.
\<close>

fun truth_value :: "bool list \<Rightarrow> error + bool" where
  "truth_value [] = Inr False"
| "truth_value [b] = Inr b"
| "truth_value bs = Inl (ValueError AmbiguousTruthValue)"

fun np_max :: "ndarray \<Rightarrow> error + npfloat" where
  "np_max [] = Inl (ValueError EmptyReduction)"
| "np_max (x # xs) = Inr (foldl fmaximum x xs)"

fun np_min :: "ndarray \<Rightarrow> error + npfloat" where
  "np_min [] = Inl (ValueError EmptyReduction)"
| "np_min (x # xs) = Inr (foldl fminimum x xs)"

section \<open>Transforms\<close>

text \<open>
  The attributes that \<open>BoundTransform.__init__\<close> sets. A bound is \<open>None\<close> or an array of
  finite numbers.
\<close>

record BoundTransform =
  a_min :: "real list option"
  a_max :: "real list option"
  shape :: "nat list"

text \<open>
  The classes of \<open>transforms.py\<close>. \<open>TanhBound\<close> and \<open>ArctanBound\<close> carry their private
  attributes \<open>_b\<close> and \<open>_a\<close>, in this order. The \<open>name\<close> attribute is left out.
\<close>

datatype transform =
    Transform
  | Reverted transform
  | Affine real real
  | Exponentiate real real
  | TanhBound BoundTransform "real list" "real list"
  | Clipping BoundTransform
  | ArctanBound BoundTransform "real list" "real list"
  | CumulativeDensity

definition reverted :: "transform \<Rightarrow> transform" where
  "reverted t = Reverted t"

subsection \<open>Constructors\<close>

definition Affine_init :: "real \<Rightarrow> real \<Rightarrow> error + transform" where
  "Affine_init a b = (if a = 0 then Inl (ValueError ZeroScale) else Inr (Affine a b))"

definition Exponentiate_init :: "real \<Rightarrow> real \<Rightarrow> error + transform" where
  "Exponentiate_init base coeff = Inr (Exponentiate base coeff)"

text \<open>A bound argument is a float or an array-like (tuple, list or array).\<close>

datatype bound_arg = Scalar real | ArrayLike "real list"

fun as_array :: "bound_arg \<Rightarrow> real list" where
  "as_array (Scalar v) = [v]"
| "as_array (ArrayLike vs) = vs"

definition BoundTransform_init ::
  "bound_arg option \<Rightarrow> bound_arg option \<Rightarrow> error + BoundTransform" where
  "BoundTransform_init lo hi =
     (let amin = map_option as_array lo; amax = map_option as_array hi in
      case (amin, amax) of
        (Some l, Some h) \<Rightarrow>
          (case broadcast2 (\<lambda>x y. y \<le> x) l h of
             Inl e \<Rightarrow> Inl e
           | Inr bs \<Rightarrow>
               if list_ex (\<lambda>b. b) bs then Inl (ValueError BoundsNotOrdered)
               else Inr \<lparr>a_min = amin, a_max = amax, shape = shape_of l\<rparr>)
      | (None, None) \<Rightarrow> Inl (ValueError NoBound)
      | (Some l, None) \<Rightarrow> Inr \<lparr>a_min = amin, a_max = amax, shape = shape_of l\<rparr>
      | (None, Some h) \<Rightarrow> Inr \<lparr>a_min = amin, a_max = amax, shape = shape_of h\<rparr>)"

definition check_shape :: "BoundTransform \<Rightarrow> 'a list \<Rightarrow> error + unit" where
  "check_shape bt x =
     (if shape bt \<noteq> [1] \<and> shape_of x \<noteq> shape bt then Inl (ValueError ShapesDoNotMatch)
      else Inr ())"

definition TanhBound_init :: "bound_arg option \<Rightarrow> bound_arg option \<Rightarrow> error + transform" where
  "TanhBound_init lo hi =
     (case BoundTransform_init lo hi of
        Inl e \<Rightarrow> Inl e
      | Inr bt \<Rightarrow>
          (case (a_min bt, a_max bt) of
             (Some l, Some h) \<Rightarrow>
               (case (broadcast2 (+) h l, broadcast2 (-) h l) of
                  (Inr s, Inr d) \<Rightarrow> Inr (TanhBound bt (map (\<lambda>v. (1 / 2) * v) s) (map (\<lambda>v. (1 / 2) * v) d))
                | (Inl e, _) \<Rightarrow> Inl e
                | (_, Inl e) \<Rightarrow> Inl e)
           | _ \<Rightarrow> Inl (ValueError BothBoundsNeeded)))"

definition Clipping_init :: "bound_arg option \<Rightarrow> bound_arg option \<Rightarrow> error + transform" where
  "Clipping_init lo hi =
     (case BoundTransform_init lo hi of Inl e \<Rightarrow> Inl e | Inr bt \<Rightarrow> Inr (Clipping bt))"

definition ArctanBound_init :: "bound_arg option \<Rightarrow> bound_arg option \<Rightarrow> error + transform" where
  "ArctanBound_init lo hi =
     (case BoundTransform_init lo hi of
        Inl e \<Rightarrow> Inl e
      | Inr bt \<Rightarrow>
          (case (a_min bt, a_max bt) of
             (Some l, Some h) \<Rightarrow>
               (case (broadcast2 (+) h l, broadcast2 (-) h l) of
                  (Inr s, Inr d) \<Rightarrow> Inr (ArctanBound bt (map (\<lambda>v. (1 / 2) * v) s) (map (\<lambda>v. v / pi) d))
                | (Inl e, _) \<Rightarrow> Inl e
                | (_, Inl e) \<Rightarrow> Inl e)
           | _ \<Rightarrow> Inl (ValueError BothBoundsNeeded)))"

definition CumulativeDensity_init :: "error + transform" where
  "CumulativeDensity_init = Inr CumulativeDensity"

subsection \<open>The range checks of the backward maps\<close>

text \<open>\<open>(y > self.a_max).any() or (y < self.a_min).any()\<close> of \<open>TanhBound.backward\<close>.\<close>

definition tanh_out_of_range :: "BoundTransform \<Rightarrow> ndarray \<Rightarrow> error + bool" where
  "tanh_out_of_range bt y =
     (case (a_min bt, a_max bt) of
        (Some l, Some h) \<Rightarrow>
          (case broadcast2 (\<lambda>v m. fless (Fin m) v) y h of
             Inl e \<Rightarrow> Inl e
           | Inr gts \<Rightarrow>
               if list_ex (\<lambda>b. b) gts then Inr True
               else (case broadcast2 (\<lambda>v m. fless v (Fin m)) y l of
                       Inl e \<Rightarrow> Inl e
                     | Inr lts \<Rightarrow> Inr (list_ex (\<lambda>b. b) lts)))
      | _ \<Rightarrow> Inl TypeError)"

text \<open>
  \<open>self.a_max is not None and np.max(y) > self.a_max\<close>, as a truth value: the comparison
  of the scalar \<open>np.max(y)\<close> with the array \<open>a_max\<close> is an array of the shape of \<open>a_max\<close>,
  and \<open>or\<close> and \<open>if\<close> take its truth value.
\<close>

definition max_above :: "real list option \<Rightarrow> ndarray \<Rightarrow> error + bool" where
  "max_above hi y =
     (case hi of
        None \<Rightarrow> Inr False
      | Some h \<Rightarrow>
          (case np_max y of
             Inl e \<Rightarrow> Inl e
           | Inr m \<Rightarrow> truth_value (map (\<lambda>b. fless (Fin b) m) h)))"

definition min_below :: "real list option \<Rightarrow> ndarray \<Rightarrow> error + bool" where
  "min_below lo y =
     (case lo of
        None \<Rightarrow> Inr False
      | Some l \<Rightarrow>
          (case np_min y of
             Inl e \<Rightarrow> Inl e
           | Inr m \<Rightarrow> truth_value (map (\<lambda>b. fless m (Fin b)) l)))"

text \<open>
  The condition of \<open>Clipping.backward\<close> and of \<open>ArctanBound.backward\<close>:
  \<open>max_above ... or min_below ...\<close>, the right operand evaluated only when the left one is
  false.
\<close>

definition reduced_out_of_range :: "BoundTransform \<Rightarrow> ndarray \<Rightarrow> error + bool" where
  "reduced_out_of_range bt y =
     (case max_above (a_max bt) y of
        Inl e \<Rightarrow> Inl e
      | Inr True \<Rightarrow> Inr True
      | Inr False \<Rightarrow> min_below (a_min bt) y)"

text \<open>\<open>np.max(y) > 1 or np.min(y) < 0\<close> of \<open>CumulativeDensity.backward\<close>: two scalars.\<close>

definition cd_out_of_range :: "ndarray \<Rightarrow> error + bool" where
  "cd_out_of_range y =
     (case np_max y of
        Inl e \<Rightarrow> Inl e
      | Inr m \<Rightarrow>
          if fless (Fin 1) m then Inr True
          else (case np_min y of Inl e \<Rightarrow> Inl e | Inr n \<Rightarrow> Inr (fless n (Fin 0))))"

text \<open>\<open>np.clip(x, a_min, a_max)\<close>, a bound that is \<open>None\<close> left out.\<close>

definition np_clip :: "ndarray \<Rightarrow> real list option \<Rightarrow> real list option \<Rightarrow> error + ndarray" where
  "np_clip x lo hi =
     (case (case lo of None \<Rightarrow> Inr x | Some l \<Rightarrow> broadcast2 fmaximum x (map Fin l)) of
        Inl e \<Rightarrow> Inl e
      | Inr x' \<Rightarrow> (case hi of None \<Rightarrow> Inr x' | Some h \<Rightarrow> broadcast2 fminimum x' (map Fin h)))"

subsection \<open>The forward and backward maps\<close>

fun forward :: "scipy_norm \<Rightarrow> transform \<Rightarrow> ndarray \<Rightarrow> error + ndarray"
  and backward :: "scipy_norm \<Rightarrow> transform \<Rightarrow> ndarray \<Rightarrow> error + ndarray" where
  "forward L Transform x = Inl NotImplementedError"
| "forward L (Reverted t) x = backward L t x"
| "forward L (Affine a b) x = Inr (map (\<lambda>v. fadd (fmul (Fin a) v) (Fin b)) x)"
| "forward L (Exponentiate base coeff) x = Inr (map (\<lambda>v. fpow base (fmul (Fin coeff) v)) x)"
| "forward L (TanhBound bt b a) x =
     (case check_shape bt x of
        Inl e \<Rightarrow> Inl e
      | Inr u \<Rightarrow>
          (case broadcast2 fmul (map Fin a) (map ftanh x) of
             Inl e \<Rightarrow> Inl e
           | Inr p \<Rightarrow> broadcast2 fadd (map Fin b) p))"
| "forward L (Clipping bt) x =
     (case check_shape bt x of
        Inl e \<Rightarrow> Inl e
      | Inr u \<Rightarrow> np_clip x (a_min bt) (a_max bt))"
| "forward L (ArctanBound bt b a) x =
     (case check_shape bt x of
        Inl e \<Rightarrow> Inl e
      | Inr u \<Rightarrow>
          (case broadcast2 fmul (map Fin a) (map farctan x) of
             Inl e \<Rightarrow> Inl e
           | Inr p \<Rightarrow> broadcast2 fadd (map Fin b) p))"
| "forward L CumulativeDensity x = Inr (map (fcdf L) x)"
| "backward L Transform y = Inl NotImplementedError"
| "backward L (Reverted t) y = forward L t y"
| "backward L (Affine a b) y = Inr (map (\<lambda>v. fdiv (fsub v (Fin b)) (Fin a)) y)"
| "backward L (Exponentiate base coeff) y =
     Inr (map (\<lambda>v. fdiv (flog v) (fmul (Fin coeff) (flog (Fin base)))) y)"
| "backward L (TanhBound bt b a) y =
     (case check_shape bt y of
        Inl e \<Rightarrow> Inl e
      | Inr u \<Rightarrow>
          (case tanh_out_of_range bt y of
             Inl e \<Rightarrow> Inl e
           | Inr True \<Rightarrow> Inl (ValueError OutOfRange)
           | Inr False \<Rightarrow>
               (case broadcast2 fsub y (map Fin b) of
                  Inl e \<Rightarrow> Inl e
                | Inr d \<Rightarrow>
                    (case broadcast2 fdiv d (map Fin a) of
                       Inl e \<Rightarrow> Inl e
                     | Inr q \<Rightarrow> Inr (map farctanh q)))))"
| "backward L (Clipping bt) y =
     (case check_shape bt y of
        Inl e \<Rightarrow> Inl e
      | Inr u \<Rightarrow>
          (case reduced_out_of_range bt y of
             Inl e \<Rightarrow> Inl e
           | Inr True \<Rightarrow> Inl (ValueError OutOfRange)
           | Inr False \<Rightarrow> Inr y))"
| "backward L (ArctanBound bt b a) y =
     (case check_shape bt y of
        Inl e \<Rightarrow> Inl e
      | Inr u \<Rightarrow>
          (case reduced_out_of_range bt y of
             Inl e \<Rightarrow> Inl e
           | Inr True \<Rightarrow> Inl (ValueError OutOfRange)
           | Inr False \<Rightarrow>
               (case broadcast2 fsub y (map Fin b) of
                  Inl e \<Rightarrow> Inl e
                | Inr d \<Rightarrow>
                    (case broadcast2 fdiv d (map Fin a) of
                       Inl e \<Rightarrow> Inl e
                     | Inr q \<Rightarrow> Inr (map ftan q)))))"
| "backward L CumulativeDensity y =
     (case cd_out_of_range y of
        Inl e \<Rightarrow> Inl e
      | Inr True \<Rightarrow> Inl (ValueError OutOfRange)
      | Inr False \<Rightarrow> Inr (map (fppf L) y))"


subsection \<open>Vocabulary for statements about transforms\<close>

text \<open>The \<open>BoundTransform\<close> part of an object of one of the three bound-based classes.\<close>

fun bounds_of :: "transform \<Rightarrow> BoundTransform option" where
  "bounds_of (TanhBound bt b a) = Some bt"
| "bounds_of (Clipping bt) = Some bt"
| "bounds_of (ArctanBound bt b a) = Some bt"
| "bounds_of t = None"

fun raises_value_error :: "error + 'a \<Rightarrow> bool" where
  "raises_value_error (Inl (ValueError m)) = True"
| "raises_value_error r = False"

text \<open>
  Element \<open>i\<close> of an array once it is broadcast: a one-element array repeats its element.
  Two arrays broadcast together when their lengths agree or one of them has one element.
  \<open>ex_broadcast P xs ys\<close> says that \<open>P\<close> holds of some pair of elements that an
  elementwise operation on \<open>xs\<close> and \<open>ys\<close> meets.
\<close>

definition elem :: "'a list \<Rightarrow> nat \<Rightarrow> 'a" where
  "elem xs i = (if length xs = 1 then xs ! 0 else xs ! i)"

definition has_elem :: "'a list \<Rightarrow> nat \<Rightarrow> bool" where
  "has_elem xs i \<longleftrightarrow> length xs = 1 \<or> i < length xs"

definition broadcastable :: "'a list \<Rightarrow> 'b list \<Rightarrow> bool" where
  "broadcastable xs ys \<longleftrightarrow> length xs = length ys \<or> length xs = 1 \<or> length ys = 1"

definition ex_broadcast :: "('a \<Rightarrow> 'b \<Rightarrow> bool) \<Rightarrow> 'a list \<Rightarrow> 'b list \<Rightarrow> bool" where
  "ex_broadcast P xs ys \<longleftrightarrow>
     list_ex (\<lambda>i. has_elem xs i \<and> has_elem ys i \<and> P (elem xs i) (elem ys i))
       [0..<max (length xs) (length ys)]"

text \<open>
  Two bounds clash when they do not broadcast together or the lower bound is greater than
  or equal to the upper bound at some element.
\<close>

definition bounds_clash :: "bound_arg option \<Rightarrow> bound_arg option \<Rightarrow> bool" where
  "bounds_clash lo hi =
     (case (lo, hi) of
        (Some l, Some h) \<Rightarrow>
          \<not> broadcastable (as_array l) (as_array h) \<or>
          ex_broadcast (\<lambda>x y. y \<le> x) (as_array l) (as_array h)
      | _ \<Rightarrow> False)"

text \<open>Some element of \<open>y\<close> compares above its upper bound, or below its lower bound.\<close>

definition above_bound :: "real list \<Rightarrow> ndarray \<Rightarrow> bool" where
  "above_bound h y = ex_broadcast (\<lambda>v m. fless (Fin m) v) y h"

definition below_bound :: "real list \<Rightarrow> ndarray \<Rightarrow> bool" where
  "below_bound l y = ex_broadcast (\<lambda>v m. fless v (Fin m)) y l"

text \<open>
  A distribution to run \<open>CumulativeDensity\<close> on where a concrete one is needed: the logistic
  distribution of scale one half, whose distribution function is \<open>(1 + tanh x) / 2\<close>.
\<close>

definition logistic :: scipy_norm where
  "logistic = \<lparr>cdf = (\<lambda>x. (1 + tanh x) / 2), ppf = (\<lambda>q. artanh (2 * q - 1))\<rparr>"

section \<open>The optimizer's ask and tell\<close>

text \<open>
  \<open>optimization/base.py\<close> and \<open>optimization/optimizerlib.py\<close> are not among the source
  files; \<open>optimization/test_base.py\<close>, which drives them, is. The optimizer below is
  modelled from the specification, the optimizer \<open>LoggingOptimizer\<close>, the function
  \<open>CounterFunction\<close> and the scenario of \<open>test_base_optimizer\<close> from \<open>test_base.py\<close>.
\<close>

text \<open>What a caller can pass as a loss.\<close>

datatype loss_value =
    PyBool bool
  | PyInt int
  | PyFloat real
  | NpInt32 int
  | NpInt64 int
  | NpFloat32 real
  | NpFloat64 real
  | PyList "loss_value list"
  | PyComplex real real
  | PyStr string
  | PyNone
  | PyObject

text \<open>
  Modelled from the spec: the validation and coercion of a loss in \<open>Optimizer.tell\<close>
  (\<open>base.py\<close>, missing): bool, int, float and numpy integer or floating scalars are accepted
  and coerced to float, every other type is rejected.
\<close>

fun as_float :: "loss_value \<Rightarrow> real option" where
  "as_float (PyBool b) = Some (if b then 1 else 0)"
| "as_float (PyInt i) = Some (of_int i)"
| "as_float (PyFloat r) = Some r"
| "as_float (NpInt32 i) = Some (of_int i)"
| "as_float (NpInt64 i) = Some (of_int i)"
| "as_float (NpFloat32 r) = Some r"
| "as_float (NpFloat64 r) = Some r"
| "as_float v = None"

text \<open>A candidate: its internal representation (the decoded arguments are derived from it).\<close>

record candidate =
  data :: "real list"

text \<open>
  The two optimizers of \<open>test_base.py\<close>: \<open>LoggingOptimizer\<close>, defined there, and
  \<open>optimizerlib.Zero\<close>, used there.
\<close>

datatype algorithm = LoggingOptimizer | Zero

text \<open>
  Modelled from the spec: the state of \<open>Optimizer\<close> (\<open>base.py\<close>, missing), with the
  attribute \<open>logs\<close> that \<open>LoggingOptimizer\<close> adds. \<open>current_best\<close> is the point; its loss
  is its archive entry.
\<close>

record optimizer =
  algo :: algorithm
  dimension :: nat
  budget :: "nat option"
  num_workers :: nat
  num_ask :: nat
  num_tell :: nat
  archive :: "real list \<rightharpoonup> real"
  current_best :: "real list option"
  pending :: "real list set"
  suggestions :: "real list list"
  logs :: "string list"

definition Optimizer_init :: "algorithm \<Rightarrow> nat \<Rightarrow> nat option \<Rightarrow> nat \<Rightarrow> optimizer" where
  "Optimizer_init alg instrumentation bud workers =
     \<lparr>algo = alg, dimension = instrumentation, budget = bud, num_workers = workers,
      num_ask = 0, num_tell = 0, archive = Map.empty, current_best = None, pending = {},
      suggestions = [], logs = []\<rparr>"

text \<open>\<open>LoggingOptimizer.__init__\<close>: \<open>instrumentation=1, budget=5\<close>.\<close>

definition LoggingOptimizer_init :: "nat \<Rightarrow> optimizer" where
  "LoggingOptimizer_init workers = Optimizer_init LoggingOptimizer 1 (Some 5) workers"

text \<open>The decimal digits of a number, as an f-string prints it.\<close>

definition digit :: "nat \<Rightarrow> char" where
  "digit d = (''0123456789'' ! d)"

function str_nat :: "nat \<Rightarrow> string" where
  "str_nat n = (if n < 10 then [digit n] else str_nat (n div 10) @ [digit (n mod 10)])"
  by pat_completeness auto
termination
  by (relation "measure id") auto

definition str_int :: "int \<Rightarrow> string" where
  "str_int i = (if i < 0 then CHR ''-'' # str_nat (nat (- i)) else str_nat (nat i))"

text \<open>\<open>int(x)\<close> of a float truncates towards zero.\<close>

definition py_int :: "real \<Rightarrow> int" where
  "py_int r = (if 0 \<le> r then \<lfloor>r\<rfloor> else \<lceil>r\<rceil>)"

text \<open>
  \<open>_internal_ask\<close> and \<open>_internal_tell\<close>. Those of \<open>LoggingOptimizer\<close> are in
  \<open>test_base.py\<close>. Modelled from the spec and the test: those of \<open>Zero\<close>
  (\<open>optimizerlib.py\<close>, missing), which proposes the origin and learns nothing.
\<close>

definition internal_ask :: "optimizer \<Rightarrow> real list \<times> optimizer" where
  "internal_ask s =
     (case algo s of
        LoggingOptimizer \<Rightarrow>
          ([real (num_ask s)], s\<lparr>logs := logs s @ [CHR ''s'' # str_nat (num_ask s)]\<rparr>)
      | Zero \<Rightarrow> (replicate (dimension s) 0, s))"

definition internal_tell :: "optimizer \<Rightarrow> real list \<Rightarrow> real \<Rightarrow> error option \<times> optimizer" where
  "internal_tell s x v =
     (case algo s of
        LoggingOptimizer \<Rightarrow>
          (case x of
             [] \<Rightarrow> (Some IndexError, s)
           | x0 # xs \<Rightarrow> (None, s\<lparr>logs := logs s @ [CHR ''u'' # str_int (py_int x0)]\<rparr>))
      | Zero \<Rightarrow> (None, s))"

text \<open>
  Modelled from the spec: \<open>Optimizer.suggest\<close> and \<open>Optimizer.ask\<close> (\<open>base.py\<close>,
  missing). A suggested point is what the next \<open>ask\<close> returns, in place of the algorithm's
  proposal; \<open>ask\<close> counts the call and records the point as pending.
\<close>

definition suggest :: "optimizer \<Rightarrow> real list \<Rightarrow> optimizer" where
  "suggest s x = s\<lparr>suggestions := suggestions s @ [x]\<rparr>"

definition ask :: "optimizer \<Rightarrow> candidate \<times> optimizer" where
  "ask s =
     (case suggestions s of
        x # rest \<Rightarrow>
          (\<lparr>data = x\<rparr>,
           s\<lparr>suggestions := rest, num_ask := num_ask s + 1, pending := insert x (pending s)\<rparr>)
      | [] \<Rightarrow>
          (case internal_ask s of
             (x, s1) \<Rightarrow>
               (\<lparr>data = x\<rparr>, s1\<lparr>num_ask := num_ask s1 + 1, pending := insert x (pending s1)\<rparr>)))"

text \<open>
  Modelled from the spec: \<open>Optimizer.tell\<close> (\<open>base.py\<close>, missing), in the order of the
  spec's steps: the loss type is validated and coerced, the archive entry of the point is
  updated, \<open>current_best\<close> is replaced when the point's entry is strictly less than the
  entry of the tracked point, \<open>num_tell\<close> is incremented, the point leaves \<open>pending\<close>, and
  the algorithm's \<open>_internal_tell\<close> runs. Callbacks only observe and have no part in the
  state. How the entry of a point that is told again combines its previous entry with the
  new loss is the parameter \<open>merge\<close>. The result is the exception raised, if any, and the
  state after the call.
\<close>

definition tell_with ::
  "(real \<Rightarrow> real \<Rightarrow> real) \<Rightarrow> optimizer \<Rightarrow> candidate \<Rightarrow> loss_value \<Rightarrow> error option \<times> optimizer" where
  "tell_with merge s c v =
     (case as_float v of
        None \<Rightarrow> (Some TypeError, s)
      | Some loss \<Rightarrow>
          if length (data c) \<noteq> dimension s then (Some (ValueError ShapesDoNotMatch), s)
          else
            (let x = data c;
                 entry = (case archive s x of None \<Rightarrow> loss | Some old \<Rightarrow> merge old loss);
                 arch = (archive s)(x \<mapsto> entry);
                 best = (case current_best s of
                           None \<Rightarrow> x
                         | Some b \<Rightarrow>
                             (case arch b of
                                None \<Rightarrow> x
                              | Some bv \<Rightarrow> if entry < bv then x else b))
             in internal_tell
                  (s\<lparr>archive := arch, current_best := Some best, num_tell := num_tell s + 1,
                     pending := pending s - {x}\<rparr>) x loss))"

text \<open>
  Modelled from the spec: the archive keeps the best (lowest) observed loss of a point that
  recurs.
\<close>

definition tell :: "optimizer \<Rightarrow> candidate \<Rightarrow> loss_value \<Rightarrow> error option \<times> optimizer" where
  "tell = tell_with min"

text \<open>
  Modelled from the spec: \<open>Optimizer.provide_recommendation\<close> (\<open>base.py\<close>, missing): the
  current best-known candidate, if a loss has been told.
\<close>

definition provide_recommendation :: "optimizer \<Rightarrow> candidate option" where
  "provide_recommendation s = map_option (\<lambda>x. \<lparr>data = x\<rparr>) (current_best s)"

subsection \<open>The scenario of \<open>test_base_optimizer\<close>\<close>






section \<open>The minimize driver\<close>

text \<open>
  \<open>CounterFunction\<close> of \<open>test_base.py\<close>: the function object is its counter; a call
  asserts that the point has one coordinate, counts, and returns \<open>float(value[0] - 1)**2\<close>.
\<close>

definition CounterFunction_call :: "nat \<Rightarrow> real list \<Rightarrow> error + (loss_value \<times> nat)" where
  "CounterFunction_call count v =
     (if length v \<noteq> 1 then Inl AssertionError
      else Inr (PyFloat ((v ! 0 - 1) ^ 2), count + 1))"

text \<open>
  A job is a candidate handed to the evaluator with the loss the evaluation gives. An
  evaluator is asked which of the running jobs are finished: it splits them into the
  finished ones and those still running. The sequential evaluator has finished every job
  it was given.
\<close>

record job =
  job_candidate :: candidate
  job_result :: loss_value

type_synonym evaluator = "job list \<Rightarrow> job list \<times> job list"

definition sequential :: evaluator where
  "sequential js = (js, [])"

fun tell_jobs :: "optimizer \<Rightarrow> job list \<Rightarrow> error option \<times> optimizer" where
  "tell_jobs s [] = (None, s)"
| "tell_jobs s (j # js) =
     (case tell s (job_candidate j) (job_result j) of
        (Some e, s') \<Rightarrow> (Some e, s')
      | (None, s') \<Rightarrow> tell_jobs s' js)"

text \<open>\<open>n\<close> asks, each candidate submitted (and with it evaluated) at once.\<close>

fun ask_jobs ::
  "nat \<Rightarrow> ('f \<Rightarrow> real list \<Rightarrow> error + (loss_value \<times> 'f)) \<Rightarrow> 'f \<Rightarrow> optimizer \<Rightarrow>
   error + (job list \<times> 'f \<times> optimizer)" where
  "ask_jobs 0 call f s = Inr ([], f, s)"
| "ask_jobs (Suc n) call f s =
     (case ask s of
        (c, s1) \<Rightarrow>
          (case call f (data c) of
             Inl e \<Rightarrow> Inl e
           | Inr (v, f1) \<Rightarrow>
               (case ask_jobs n call f1 s1 of
                  Inl e \<Rightarrow> Inl e
                | Inr (js, f2, s2) \<Rightarrow> Inr (\<lparr>job_candidate = c, job_result = v\<rparr> # js, f2, s2))))"

text \<open>
  Modelled from the spec: the loop of \<open>Optimizer.minimize\<close> (\<open>base.py\<close>, missing). Each
  turn tells the finished evaluations in the order they were asked, then fills the free
  worker slots with new asks, as many as the budget still allows; in batch mode new asks
  wait until no evaluation is outstanding. The loop ends when the budget is used and
  nothing is outstanding. The number of turns is bounded by \<open>fuel\<close>: \<open>None\<close> is a loop that
  has not ended within it.
\<close>

fun minimize_loop ::
  "nat \<Rightarrow> evaluator \<Rightarrow> ('f \<Rightarrow> real list \<Rightarrow> error + (loss_value \<times> 'f)) \<Rightarrow> bool \<Rightarrow> nat \<Rightarrow>
   'f \<Rightarrow> optimizer \<Rightarrow> job list \<Rightarrow> (error + ('f \<times> optimizer)) option" where
  "minimize_loop 0 poll call batch_mode bud f s running = None"
| "minimize_loop (Suc fuel) poll call batch_mode bud f s running =
     (if bud - num_ask s = 0 \<and> running = [] then Some (Inr (f, s))
      else
        (case poll running of
           (finished, still) \<Rightarrow>
             (case tell_jobs s finished of
                (Some e, s1) \<Rightarrow> Some (Inl e)
              | (None, s1) \<Rightarrow>
                  (case ask_jobs
                          (if \<not> batch_mode \<or> still = []
                           then min (bud - num_ask s1) (num_workers s1 - length still) else 0)
                          call f s1 of
                     Inl e \<Rightarrow> Some (Inl e)
                   | Inr (new, f2, s2) \<Rightarrow>
                       minimize_loop fuel poll call batch_mode bud f2 s2 (still @ new)))))"

text \<open>
  Modelled from the spec: \<open>Optimizer.minimize\<close> (\<open>base.py\<close>, missing), for an optimizer
  that has a budget: the loop, then the recommendation.
\<close>

definition minimize ::
  "nat \<Rightarrow> evaluator \<Rightarrow> ('f \<Rightarrow> real list \<Rightarrow> error + (loss_value \<times> 'f)) \<Rightarrow> 'f \<Rightarrow> bool \<Rightarrow>
   optimizer \<Rightarrow> (error + (candidate option \<times> 'f \<times> optimizer)) option" where
  "minimize fuel poll call f batch_mode s =
     (case budget s of
        None \<Rightarrow> Some (Inl TypeError)
      | Some bud \<Rightarrow>
          (case minimize_loop fuel poll call batch_mode bud f s [] of
             None \<Rightarrow> None
           | Some (Inl e) \<Rightarrow> Some (Inl e)
           | Some (Inr (f', s')) \<Rightarrow> Some (Inr (provide_recommendation s', f', s'))))"

text \<open>
  \<open>test_batch_and_steady_optimization\<close>: the logs of a \<open>LoggingOptimizer\<close> after
  \<open>minimize\<close> on a fresh \<open>CounterFunction\<close>, the evaluations run by the evaluator \<open>poll\<close>.
  The test passes no executor, so that its evaluator is the sequential one.
\<close>

definition minimize_logs :: "nat \<Rightarrow> evaluator \<Rightarrow> nat \<Rightarrow> bool \<Rightarrow> string list option" where
  "minimize_logs fuel poll workers batch_mode =
     (case minimize fuel poll CounterFunction_call 0 batch_mode (LoggingOptimizer_init workers) of
        Some (Inr (r, f, s)) \<Rightarrow> Some (logs s)
      | _ \<Rightarrow> None)"

text \<open>
  An evaluator with one slow worker: at each poll the oldest running job, and only that
  one, has finished.
\<close>

definition one_at_a_time :: evaluator where
  "one_at_a_time js = (take 1 js, drop 1 js)"

section \<open>Binary64 arithmetic\<close>

text \<open>
  The operations above compute with finite numbers exactly. numpy computes in IEEE 754
  binary64: the result of an operation on finite operands is the exact result rounded to
  the nearest double, ties to even, and a result too large for a double overflows to an
  infinity. This section gives that rounding, the rounded operations, and the arithmetic
  of \<open>TanhBound\<close> on one element with them. What the other sections state about errors,
  shapes and comparisons does not depend on rounding; what \<open>TanhBound\<close> returns does.
\<close>

text \<open>The integer nearest to a number, the even one of two that are equally near.\<close>

definition round_even :: "real \<Rightarrow> int" where
  "round_even t =
     (let f = \<lfloor>t\<rfloor> in
      if t - of_int f < 1 / 2 then f
      else if 1 / 2 < t - of_int f then f + 1
      else if even f then f else f + 1)"

text \<open>
  The double nearest to a real number: 53 significant bits, the last of them of weight
  \<open>2 ^ e\<close> with \<open>e\<close> no lower than \<open>-1074\<close> (subnormal numbers), and an infinity when the
  rounded magnitude reaches \<open>2 ^ 1024\<close>. The sign of zero is left out.
\<close>

definition binary64 :: "real \<Rightarrow> npfloat" where
  "binary64 x =
     (if x = 0 then Fin 0
      else
        let e = max \<lfloor>log 2 \<bar>x\<bar>\<rfloor> (- 1022) - 52;
            r = of_int (round_even (x / 2 powr of_int e)) * 2 powr of_int e
        in if 2 powr 1024 \<le> \<bar>r\<bar> then (if 0 < x then PInf else NInf) else Fin r)"

fun round64 :: "npfloat \<Rightarrow> npfloat" where
  "round64 (Fin r) = binary64 r"
| "round64 x = x"

text \<open>
  The four operations of IEEE arithmetic round the exact result. \<open>np.tanh\<close> and
  \<open>np.arctanh\<close> are those of the C library, taken here as correctly rounded.
\<close>

definition fadd64 :: "npfloat \<Rightarrow> npfloat \<Rightarrow> npfloat" where
  "fadd64 x y = round64 (fadd x y)"

definition fsub64 :: "npfloat \<Rightarrow> npfloat \<Rightarrow> npfloat" where
  "fsub64 x y = round64 (fsub x y)"

definition fmul64 :: "npfloat \<Rightarrow> npfloat \<Rightarrow> npfloat" where
  "fmul64 x y = round64 (fmul x y)"

definition fdiv64 :: "npfloat \<Rightarrow> npfloat \<Rightarrow> npfloat" where
  "fdiv64 x y = round64 (fdiv x y)"

definition tanh64 :: "npfloat \<Rightarrow> npfloat" where
  "tanh64 x = round64 (ftanh x)"

definition arctanh64 :: "npfloat \<Rightarrow> npfloat" where
  "arctanh64 x = round64 (farctanh x)"

text \<open>\<open>np.isfinite\<close>.\<close>

fun is_finite :: "npfloat \<Rightarrow> bool" where
  "is_finite (Fin r) = True"
| "is_finite x = False"

text \<open>
  \<open>TanhBound\<close> with bounds of one element, on an input of one element (where the shape
  check passes and nothing is broadcast): \<open>_b\<close> and \<open>_a\<close> of \<open>__init__\<close>, then
  \<open>forward\<close> and \<open>backward\<close>, operation by operation.
\<close>

definition TanhBound_b64 :: "npfloat \<Rightarrow> npfloat \<Rightarrow> npfloat" where
  "TanhBound_b64 lo hi = fmul64 (Fin (1 / 2)) (fadd64 hi lo)"

definition TanhBound_a64 :: "npfloat \<Rightarrow> npfloat \<Rightarrow> npfloat" where
  "TanhBound_a64 lo hi = fmul64 (Fin (1 / 2)) (fsub64 hi lo)"

definition TanhBound_forward64 :: "npfloat \<Rightarrow> npfloat \<Rightarrow> npfloat \<Rightarrow> npfloat" where
  "TanhBound_forward64 lo hi x =
     fadd64 (TanhBound_b64 lo hi) (fmul64 (TanhBound_a64 lo hi) (tanh64 x))"

definition TanhBound_backward64 :: "npfloat \<Rightarrow> npfloat \<Rightarrow> npfloat \<Rightarrow> error + npfloat" where
  "TanhBound_backward64 lo hi y =
     (if fless hi y \<or> fless y lo then Inl (ValueError OutOfRange)
      else Inr (arctanh64 (fdiv64 (fsub64 y (TanhBound_b64 lo hi)) (TanhBound_a64 lo hi))))"

section \<open>Reverting twice\<close>

text \<open>
  C4. For every transform \<open>T\<close> and every input, \<open>T.reverted().reverted()\<close> gives the same
  result as \<open>T\<close>, forward and backward: the same output, or the same error.
\<close>

theorem reverted_reverted_same:
  "forward L (reverted (reverted T)) x = forward L T x \<and>
   backward L (reverted (reverted T)) y = backward L T y"
  by (simp add: reverted_def)

section \<open>Broadcasting\<close>

lemma broadcast2_Inr_iff: "(\<exists>zs. broadcast2 f xs ys = Inr zs) \<longleftrightarrow> broadcastable xs ys"
  by (auto simp: broadcast2_def broadcastable_def)

lemma broadcast2_Inl: "broadcast2 f xs ys = Inl e \<Longrightarrow> e = ValueError BroadcastFailed \<and> \<not> broadcastable xs ys"
  by (auto simp: broadcast2_def broadcastable_def split: if_splits)

lemma broadcast2_length:
  "broadcast2 f xs ys = Inr zs \<Longrightarrow>
   length zs = (if length xs = 1 then length ys else length xs)"
  by (auto simp: broadcast2_def split: if_splits)

lemma broadcast2_has_elem:
  assumes "broadcast2 f xs ys = Inr zs" "i < length zs"
  shows "has_elem xs i \<and> has_elem ys i"
  using assms by (auto simp: broadcast2_def has_elem_def split: if_splits)

lemma hd_singleton: "length xs = Suc 0 \<Longrightarrow> hd xs = xs ! 0"
  by (cases xs) simp_all

lemma broadcast2_nth:
  assumes "broadcast2 f xs ys = Inr zs" "i < length zs"
  shows "zs ! i = f (elem xs i) (elem ys i)"
  using assms
  by (auto simp: broadcast2_def elem_def hd_singleton split: if_splits)

lemma broadcast2_elem:
  assumes "broadcast2 f xs ys = Inr zs" "has_elem zs i"
  shows "elem zs i = f (elem xs i) (elem ys i)"
proof (cases "length zs = 1")
  case True
  then have "zs ! 0 = f (elem xs 0) (elem ys 0)"
    using broadcast2_nth[OF assms(1), of 0] by simp
  moreover have "length xs = 1 \<and> length ys = 1"
    using True broadcast2_length[OF assms(1)] assms(1)
    by (auto simp: broadcast2_def split: if_splits)
  ultimately show ?thesis using True by (simp add: elem_def)
next
  case False
  then have i: "i < length zs" using assms(2) by (simp add: has_elem_def)
  have "elem zs i = zs ! i" using False by (simp add: elem_def)
  then show ?thesis using broadcast2_nth[OF assms(1) i] by simp
qed

lemma broadcast2_list_ex:
  assumes "broadcast2 P xs ys = Inr bs"
  shows "list_ex (\<lambda>b. b) bs \<longleftrightarrow> ex_broadcast P xs ys"
proof -
  have len: "length bs = (if length xs = 1 then length ys else length xs)"
    by (rule broadcast2_length[OF assms])
  have le: "length bs \<le> max (length xs) (length ys)"
    using len by (simp split: if_splits)
  have L: "list_ex (\<lambda>b. b) bs \<longleftrightarrow> (\<exists>i<length bs. bs ! i)"
  proof -
    have "list_ex (\<lambda>b. b) bs \<longleftrightarrow> True \<in> set bs"
      by (induction bs) auto
    also have "\<dots> \<longleftrightarrow> (\<exists>i<length bs. bs ! i = True)"
      by (rule in_set_conv_nth)
    finally show ?thesis by simp
  qed
  have R: "ex_broadcast P xs ys \<longleftrightarrow>
      (\<exists>i<max (length xs) (length ys). has_elem xs i \<and> has_elem ys i \<and> P (elem xs i) (elem ys i))"
    unfolding ex_broadcast_def list_ex_iff by (simp add: Bex_def)
  show ?thesis
  proof
    assume "list_ex (\<lambda>b. b) bs"
    then obtain i where i: "i < length bs" "bs ! i" using L by blast
    have "P (elem xs i) (elem ys i)"
      using broadcast2_nth[OF assms i(1)] i(2) by simp
    moreover have "has_elem xs i \<and> has_elem ys i"
      by (rule broadcast2_has_elem[OF assms i(1)])
    moreover have "i < max (length xs) (length ys)" using i(1) le by linarith
    ultimately show "ex_broadcast P xs ys" unfolding R by blast
  next
    assume "ex_broadcast P xs ys"
    then obtain i where i: "i < max (length xs) (length ys)" "has_elem xs i" "has_elem ys i"
      "P (elem xs i) (elem ys i)" unfolding R by blast
    have "\<exists>j<length bs. P (elem xs j) (elem ys j)"
    proof (cases "i < length bs")
      case True then show ?thesis using i(4) by blast
    next
      case False
      have n1: "length xs = 1"
      proof (rule ccontr)
        assume "length xs \<noteq> 1"
        then have "length bs = length xs" "i < length xs"
          using len i(2) by (simp_all add: has_elem_def)
        then show False using False by simp
      qed
      then have lb: "length bs = length ys" using len by simp
      then have m1: "length ys = 1" using False i(3) by (simp add: has_elem_def)
      have "elem xs i = elem xs 0" "elem ys i = elem ys 0"
        using n1 m1 by (simp_all add: elem_def)
      then have "P (elem xs 0) (elem ys 0)" using i(4) by simp
      moreover have "0 < length bs" using lb m1 by simp
      ultimately show ?thesis by blast
    qed
    then obtain j where j: "j < length bs" "P (elem xs j) (elem ys j)" by blast
    then have "bs ! j" using broadcast2_nth[OF assms j(1)] by simp
    then show "list_ex (\<lambda>b. b) bs" using L j(1) by blast
  qed
qed

section \<open>The shape check\<close>

lemma broadcast2_not_shape: "broadcast2 f xs ys \<noteq> Inl (ValueError ShapesDoNotMatch)"
  by (simp add: broadcast2_def)

lemma truth_value_not_shape: "truth_value bs \<noteq> Inl (ValueError ShapesDoNotMatch)"
  by (cases bs rule: truth_value.cases) simp_all

lemma np_max_not_shape: "np_max y \<noteq> Inl (ValueError ShapesDoNotMatch)"
  by (cases y) simp_all

lemma np_min_not_shape: "np_min y \<noteq> Inl (ValueError ShapesDoNotMatch)"
  by (cases y) simp_all

lemma tanh_out_of_range_not_shape: "tanh_out_of_range bt y \<noteq> Inl (ValueError ShapesDoNotMatch)"
  using broadcast2_not_shape
  by (auto simp: tanh_out_of_range_def split: option.splits sum.splits)

lemma reduced_out_of_range_not_shape:
  "reduced_out_of_range bt y \<noteq> Inl (ValueError ShapesDoNotMatch)"
  using truth_value_not_shape np_max_not_shape np_min_not_shape
  by (auto simp: reduced_out_of_range_def max_above_def min_below_def
      split: option.splits sum.splits bool.splits)

lemma np_clip_not_shape: "np_clip x lo hi \<noteq> Inl (ValueError ShapesDoNotMatch)"
  using broadcast2_not_shape
  by (auto simp: np_clip_def split: option.splits sum.splits)

lemmas init_defs = TanhBound_init_def ArctanBound_init_def Clipping_init_def
  BoundTransform_init_def broadcast2_def shape_of_def

lemmas run_defs = check_shape_def np_clip_def reduced_out_of_range_def max_above_def
  min_below_def tanh_out_of_range_def cd_out_of_range_def fmaximum_def fminimum_def fsub_def

section \<open>Construction\<close>

lemma BoundTransform_init_both:
  "BoundTransform_init (Some l) (Some h) =
     (if \<not> broadcastable (as_array l) (as_array h) then Inl (ValueError BroadcastFailed)
      else if ex_broadcast (\<lambda>x y. y \<le> x) (as_array l) (as_array h)
           then Inl (ValueError BoundsNotOrdered)
      else Inr \<lparr>a_min = Some (as_array l), a_max = Some (as_array h),
                shape = shape_of (as_array l)\<rparr>)"
proof (cases "broadcast2 (\<lambda>x y. y \<le> x) (as_array l) (as_array h)")
  case (Inl e)
  then show ?thesis
    using broadcast2_Inl[OF Inl] by (simp add: BoundTransform_init_def)
next
  case (Inr bs)
  then have "broadcastable (as_array l) (as_array h)"
    using broadcast2_Inr_iff by blast
  then show ?thesis
    using Inr broadcast2_list_ex[OF Inr] by (simp add: BoundTransform_init_def)
qed

lemma BoundTransform_init_one:
  "BoundTransform_init (Some l) None =
     Inr \<lparr>a_min = Some (as_array l), a_max = None, shape = shape_of (as_array l)\<rparr>"
  "BoundTransform_init None (Some h) =
     Inr \<lparr>a_min = None, a_max = Some (as_array h), shape = shape_of (as_array h)\<rparr>"
  "BoundTransform_init None None = Inl (ValueError NoBound)"
  by (simp_all add: BoundTransform_init_def)

lemma broadcast2_total: "broadcastable xs ys \<Longrightarrow> \<exists>zs. broadcast2 f xs ys = Inr zs"
  using broadcast2_Inr_iff by blast

lemma broadcastable_sym: "broadcastable xs ys \<Longrightarrow> broadcastable ys xs"
  by (auto simp: broadcastable_def)

lemma TanhBound_init_both:
  assumes "broadcastable (as_array l) (as_array h)"
    and "\<not> ex_broadcast (\<lambda>x y. y \<le> x) (as_array l) (as_array h)"
  shows "\<exists>b a. TanhBound_init (Some l) (Some h) =
      Inr (TanhBound \<lparr>a_min = Some (as_array l), a_max = Some (as_array h),
                        shape = shape_of (as_array l)\<rparr> b a)"
proof -
  obtain s where s: "broadcast2 (+) (as_array h) (as_array l) = Inr s"
    using broadcast2_total[OF broadcastable_sym[OF assms(1)]] by blast
  obtain d where d: "broadcast2 (-) (as_array h) (as_array l) = Inr d"
    using broadcast2_total[OF broadcastable_sym[OF assms(1)]] by blast
  show ?thesis
    using assms s d by (simp add: TanhBound_init_def BoundTransform_init_both)
qed

lemma ArctanBound_init_both:
  assumes "broadcastable (as_array l) (as_array h)"
    and "\<not> ex_broadcast (\<lambda>x y. y \<le> x) (as_array l) (as_array h)"
  shows "\<exists>b a. ArctanBound_init (Some l) (Some h) =
      Inr (ArctanBound \<lparr>a_min = Some (as_array l), a_max = Some (as_array h),
                        shape = shape_of (as_array l)\<rparr> b a)"
proof -
  obtain s where s: "broadcast2 (+) (as_array h) (as_array l) = Inr s"
    using broadcast2_total[OF broadcastable_sym[OF assms(1)]] by blast
  obtain d where d: "broadcast2 (-) (as_array h) (as_array l) = Inr d"
    using broadcast2_total[OF broadcastable_sym[OF assms(1)]] by blast
  show ?thesis
    using assms s d by (simp add: ArctanBound_init_def BoundTransform_init_both)
qed

lemma TanhBound_init_fails:
  "isl (TanhBound_init lo hi) \<longleftrightarrow> lo = None \<or> hi = None \<or> bounds_clash lo hi"
  "isl (TanhBound_init lo hi) \<longrightarrow> raises_value_error (TanhBound_init lo hi)"
proof -
  show "isl (TanhBound_init lo hi) \<longleftrightarrow> lo = None \<or> hi = None \<or> bounds_clash lo hi"
  proof (cases lo; cases hi)
    fix l h assume lh: "lo = Some l" "hi = Some h"
    show ?thesis
    proof (cases "bounds_clash lo hi")
      case True
      then show ?thesis
        using lh by (auto simp: bounds_clash_def TanhBound_init_def BoundTransform_init_both)
    next
      case False
      then show ?thesis
        using lh TanhBound_init_both[of l h] by (auto simp: bounds_clash_def)
    qed
  qed (simp_all add: TanhBound_init_def BoundTransform_init_one bounds_clash_def)
  show "isl (TanhBound_init lo hi) \<longrightarrow> raises_value_error (TanhBound_init lo hi)"
  proof (cases lo; cases hi)
    fix l h assume lh: "lo = Some l" "hi = Some h"
    show ?thesis
    proof (cases "bounds_clash lo hi")
      case True
      then show ?thesis
        using lh by (auto simp: bounds_clash_def TanhBound_init_def BoundTransform_init_both)
    next
      case False
      then show ?thesis
        using lh TanhBound_init_both[of l h] by (auto simp: bounds_clash_def)
    qed
  qed (simp_all add: TanhBound_init_def BoundTransform_init_one)
qed

lemma ArctanBound_init_fails:
  "isl (ArctanBound_init lo hi) \<longleftrightarrow> lo = None \<or> hi = None \<or> bounds_clash lo hi"
  "isl (ArctanBound_init lo hi) \<longrightarrow> raises_value_error (ArctanBound_init lo hi)"
proof -
  show "isl (ArctanBound_init lo hi) \<longleftrightarrow> lo = None \<or> hi = None \<or> bounds_clash lo hi"
  proof (cases lo; cases hi)
    fix l h assume lh: "lo = Some l" "hi = Some h"
    show ?thesis
    proof (cases "bounds_clash lo hi")
      case True
      then show ?thesis
        using lh by (auto simp: bounds_clash_def ArctanBound_init_def BoundTransform_init_both)
    next
      case False
      then show ?thesis
        using lh ArctanBound_init_both[of l h] by (auto simp: bounds_clash_def)
    qed
  qed (simp_all add: ArctanBound_init_def BoundTransform_init_one bounds_clash_def)
  show "isl (ArctanBound_init lo hi) \<longrightarrow> raises_value_error (ArctanBound_init lo hi)"
  proof (cases lo; cases hi)
    fix l h assume lh: "lo = Some l" "hi = Some h"
    show ?thesis
    proof (cases "bounds_clash lo hi")
      case True
      then show ?thesis
        using lh by (auto simp: bounds_clash_def ArctanBound_init_def BoundTransform_init_both)
    next
      case False
      then show ?thesis
        using lh ArctanBound_init_both[of l h] by (auto simp: bounds_clash_def)
    qed
  qed (simp_all add: ArctanBound_init_def BoundTransform_init_one)
qed

lemma Clipping_init_fails:
  "isl (Clipping_init lo hi) \<longleftrightarrow> (lo = None \<and> hi = None) \<or> bounds_clash lo hi"
  "isl (Clipping_init lo hi) \<longrightarrow> raises_value_error (Clipping_init lo hi)"
  by (cases lo; cases hi;
      simp add: Clipping_init_def BoundTransform_init_one BoundTransform_init_both bounds_clash_def)+

text \<open>
  C5, as amended. The construction of a transform fails exactly in these configurations,
  and then with a value error: \<open>Affine\<close> with \<open>a = 0\<close>; a bound-based transform with both
  bounds omitted; \<open>TanhBound\<close> or \<open>ArctanBound\<close> with either bound omitted; a bound-based
  transform with both bounds given whose bounds clash, that is, \<open>a_min >= a_max\<close> at some
  element or the two bounds do not broadcast together. A failed construction returns no
  object.
\<close>

theorem construction_fails_exactly:
  "(isl (Affine_init a b) \<longleftrightarrow> a = 0) \<and>
   (isl (TanhBound_init lo hi) \<longleftrightarrow> lo = None \<or> hi = None \<or> bounds_clash lo hi) \<and>
   (isl (ArctanBound_init lo hi) \<longleftrightarrow> lo = None \<or> hi = None \<or> bounds_clash lo hi) \<and>
   (isl (Clipping_init lo hi) \<longleftrightarrow> (lo = None \<and> hi = None) \<or> bounds_clash lo hi) \<and>
   (isl (Affine_init a b) \<longrightarrow> raises_value_error (Affine_init a b)) \<and>
   (isl (TanhBound_init lo hi) \<longrightarrow> raises_value_error (TanhBound_init lo hi)) \<and>
   (isl (ArctanBound_init lo hi) \<longrightarrow> raises_value_error (ArctanBound_init lo hi)) \<and>
   (isl (Clipping_init lo hi) \<longrightarrow> raises_value_error (Clipping_init lo hi))"
proof -
  have "isl (Affine_init a b) \<longleftrightarrow> a = 0"
    and "isl (Affine_init a b) \<longrightarrow> raises_value_error (Affine_init a b)"
    by (simp_all add: Affine_init_def)
  then show ?thesis
    using TanhBound_init_fails[of lo hi] ArctanBound_init_fails[of lo hi]
      Clipping_init_fails[of lo hi]
    by blast
qed

theorem construction_fails_exactly_witness:
  "bounds_clash (Some (ArrayLike [0, 2])) (Some (Scalar 1)) \<and>
   raises_value_error (Affine_init 0 1) \<and>
   raises_value_error (TanhBound_init (Some (ArrayLike [0, 2])) (Some (Scalar 1))) \<and>
   raises_value_error (ArctanBound_init (Some (ArrayLike [0, 2])) (Some (Scalar 1))) \<and>
   raises_value_error (Clipping_init (Some (ArrayLike [0, 2])) (Some (Scalar 1)))"
proof -
  have c: "bounds_clash (Some (ArrayLike [0, 2])) (Some (Scalar 1))"
    by (simp add: bounds_clash_def broadcastable_def ex_broadcast_def has_elem_def elem_def
        upt_rec)
  show ?thesis
    using c construction_fails_exactly[of 0 1 "Some (ArrayLike [0, 2])" "Some (Scalar 1)"]
    by simp
qed

text \<open>
  The claim as stated fails: a \<open>Clipping\<close> whose bounds are \<open>[0, 0]\<close> and \<open>[1, 1, 1]\<close> has
  both bounds and no element of \<open>a_min\<close> that reaches one of \<open>a_max\<close>, and its construction
  raises a value error all the same, in the comparison of the two arrays.
\<close>

theorem construction_fails_unlisted:
  "Clipping_init (Some (ArrayLike [0, 0])) (Some (ArrayLike [1, 1, 1])) =
     Inl (ValueError BroadcastFailed)"
  by (simp add: Clipping_init_def BoundTransform_init_def broadcast2_def)

section \<open>Tell, recommendation and the minimize driver\<close>

lemmas opt_defs = tell_def tell_with_def internal_tell_def internal_ask_def ask_def
  Optimizer_init_def LoggingOptimizer_init_def provide_recommendation_def suggest_def
  digit_def str_int_def py_int_def Let_def






lemma tell_accepts:
  assumes "as_float v = Some r" "length (data c) = dimension s" "0 < dimension s"
  shows "fst (tell s c v) = None \<and> num_tell (snd (tell s c v)) = num_tell s + 1"
proof -
  obtain x0 xs where x: "data c = x0 # xs"
    using assms(2,3) by (cases "data c") auto
  show ?thesis
    using assms x
    by (cases "algo s") (simp_all add: tell_def tell_with_def internal_tell_def Let_def)
qed

lemma tell_rejects: "as_float v = None \<Longrightarrow> tell s c v = (Some TypeError, s)"
  by (simp add: tell_def tell_with_def)

text \<open>
  C8. For a candidate of the optimizer's dimension, \<open>tell\<close> succeeds (and counts the tell)
  when the loss is a bool, an int, a float or a numpy integer or floating scalar. For a
  loss of another type (a list, a complex number, a string, \<open>None\<close>, a plain object),
  \<open>tell\<close> raises a type error and the state of the optimizer is the state before the call.
\<close>

theorem tell_loss_type_gate:
  assumes "length (data c) = dimension s" "0 < dimension s"
  shows "(\<forall>v \<in> {PyBool b, PyInt i, PyFloat r, NpInt32 i, NpInt64 i, NpFloat32 r, NpFloat64 r}.
            fst (tell s c v) = None \<and> num_tell (snd (tell s c v)) = num_tell s + 1) \<and>
         (\<forall>v \<in> {PyList vs, PyComplex re im, PyStr str, PyNone, PyObject}.
            tell s c v = (Some TypeError, s))"
  using tell_accepts[OF _ assms] tell_rejects by simp

theorem tell_loss_type_gate_witness:
  "length (data (fst (ask (LoggingOptimizer_init 1)))) =
     dimension (snd (ask (LoggingOptimizer_init 1))) \<and>
   0 < dimension (snd (ask (LoggingOptimizer_init 1))) \<and>
   fst (tell (snd (ask (LoggingOptimizer_init 1))) (fst (ask (LoggingOptimizer_init 1))) (PyInt 3)) = None \<and>
   fst (tell (snd (ask (LoggingOptimizer_init 1))) (fst (ask (LoggingOptimizer_init 1))) (PyBool True)) = None \<and>
   fst (tell (snd (ask (LoggingOptimizer_init 1))) (fst (ask (LoggingOptimizer_init 1))) (NpInt32 3)) = None \<and>
   fst (tell (snd (ask (LoggingOptimizer_init 1))) (fst (ask (LoggingOptimizer_init 1))) (NpInt64 3)) = None \<and>
   fst (tell (snd (ask (LoggingOptimizer_init 1))) (fst (ask (LoggingOptimizer_init 1))) (NpFloat64 3)) = None \<and>
   fst (tell (snd (ask (LoggingOptimizer_init 1))) (fst (ask (LoggingOptimizer_init 1))) (NpFloat32 3)) = None \<and>
   tell (snd (ask (LoggingOptimizer_init 1))) (fst (ask (LoggingOptimizer_init 1)))
     (PyList [PyInt 3, PyInt 5]) = (Some TypeError, snd (ask (LoggingOptimizer_init 1))) \<and>
   tell (snd (ask (LoggingOptimizer_init 1))) (fst (ask (LoggingOptimizer_init 1)))
     (PyComplex 0 1) = (Some TypeError, snd (ask (LoggingOptimizer_init 1))) \<and>
   tell (snd (ask (LoggingOptimizer_init 1))) (fst (ask (LoggingOptimizer_init 1)))
     PyObject = (Some TypeError, snd (ask (LoggingOptimizer_init 1)))"
proof -
  have h: "length (data (fst (ask (LoggingOptimizer_init 1)))) =
      dimension (snd (ask (LoggingOptimizer_init 1)))"
    "0 < dimension (snd (ask (LoggingOptimizer_init 1)))"
    by (simp_all add: ask_def internal_ask_def LoggingOptimizer_init_def Optimizer_init_def)
  show ?thesis
    using h
      tell_loss_type_gate[OF h, of True 3 3 "[PyInt 3, PyInt 5]" 0 1 "[]"]
    by simp
qed

lemma minimize_loop_more_fuel:
  "minimize_loop n poll call bm bud f s running = Some res \<Longrightarrow>
   minimize_loop (n + k) poll call bm bud f s running = Some res"
proof (induction n arbitrary: f s running)
  case 0
  then show ?case by simp
next
  case (Suc n)
  have IH: "\<forall>f s running. minimize_loop n poll call bm bud f s running = Some res \<longrightarrow>
      minimize_loop (n + k) poll call bm bud f s running = Some res"
    using Suc.IH by blast
  from IH Suc.prems show ?case
    by (auto split: prod.splits option.splits sum.splits if_splits)
qed

lemma minimize_logs_more_fuel:
  assumes "minimize_logs n poll w bm = Some l"
  shows "minimize_logs (n + k) poll w bm = Some l"
proof -
  obtain f s where r: "minimize_loop n poll CounterFunction_call bm 5 (0::nat)
      (LoggingOptimizer_init w) [] = Some (Inr (f, s))" and l: "logs s = l"
    using assms
    by (auto simp: minimize_logs_def minimize_def LoggingOptimizer_init_def Optimizer_init_def
        split: option.splits sum.splits)
  show ?thesis
    using minimize_loop_more_fuel[OF r, of k] l
    by (simp add: minimize_logs_def minimize_def LoggingOptimizer_init_def Optimizer_init_def)
qed

lemmas driver_defs = minimize_logs_def minimize_def CounterFunction_call_def

lemma in_order_empty:
  assumes "\<And>js. fst (poll js) @ snd (poll js) = js"
  shows "poll [] = ([], [])"
  using assms [of "[]"] by (cases "poll []") simp

lemma in_order_single:
  assumes "\<And>js. fst (poll js) @ snd (poll js) = js" "\<And>js. js \<noteq> [] \<Longrightarrow> fst (poll js) \<noteq> []"
  shows "poll [j] = ([j], [])"
  using assms(1) [of "[j]"] assms(2) [of "[j]"]
  by (cases "poll [j]") (auto simp: append_eq_Cons_conv)

lemma minimize_logs_one_worker:
  assumes "\<And>js. fst (poll js) @ snd (poll js) = js" "\<And>js. js \<noteq> [] \<Longrightarrow> fst (poll js) \<noteq> []"
  shows "minimize_logs 7 poll 1 bm =
     Some [''s0'', ''u0'', ''s1'', ''u1'', ''s2'', ''u2'', ''s3'', ''u3'', ''s4'', ''u4'']"
  by (cases bm)
    (simp_all add: driver_defs opt_defs numeral_nat in_order_empty [OF assms(1)]
      in_order_single [OF assms])

lemma minimize_logs_three_workers_steady:
  "minimize_logs 4 sequential 3 False =
     Some [''s0'', ''s1'', ''s2'', ''u0'', ''u1'', ''u2'', ''s3'', ''s4'', ''u3'', ''u4'']"
  by (simp add: driver_defs sequential_def opt_defs numeral_nat)

lemma minimize_logs_one_at_a_time_steady:
  "minimize_logs 7 one_at_a_time 3 False =
     Some [''s0'', ''s1'', ''s2'', ''u0'', ''s3'', ''u1'', ''s4'', ''u2'', ''u3'', ''u4'']"
  by (simp add: driver_defs one_at_a_time_def opt_defs numeral_nat)

lemma minimize_logs_one_at_a_time_batch:
  "minimize_logs 7 one_at_a_time 3 True =
     Some [''s0'', ''s1'', ''s2'', ''u0'', ''u1'', ''u2'', ''s3'', ''s4'', ''u3'', ''u4'']"
  by (simp add: driver_defs one_at_a_time_def opt_defs numeral_nat)


lemma tell_jobs_append:
  "tell_jobs s (a @ b) =
     (case tell_jobs s a of (Some e, s') \<Rightarrow> (Some e, s') | (None, s') \<Rightarrow> tell_jobs s' b)"
  by (induction a arbitrary: s) (auto split: prod.splits option.splits)

lemma batch_round:
  assumes fifo: "\<And>js. fst (poll js) @ snd (poll js) = js"
    and prog: "\<And>js. js \<noteq> [] \<Longrightarrow> fst (poll js) \<noteq> []"
  shows "running \<noteq> [] \<Longrightarrow> tell_jobs s running = (None, s1) \<Longrightarrow>
         ask_jobs (min (bud - num_ask s1) (num_workers s1)) call f s1 = Inr (new, f2, s2) \<Longrightarrow>
         \<exists>n<length running. \<forall>fuel.
           minimize_loop (Suc n + fuel) poll call True bud f s running =
           minimize_loop fuel poll call True bud f2 s2 new"
proof (induction "length running" arbitrary: running s rule: less_induct)
  case less
  obtain fin still where p: "poll running = (fin, still)"
    by (cases "poll running")
  have app: "fin @ still = running" and fin: "fin \<noteq> []"
    using fifo [of running] prog [OF less.prems(1)] p by simp_all
  obtain sm where tf: "tell_jobs s fin = (None, sm)" and ts: "tell_jobs sm still = (None, s1)"
    using less.prems(2) unfolding app [symmetric] tell_jobs_append
    by (auto split: prod.splits option.splits)
  show ?case
  proof (cases "still = []")
    case True
    hence "sm = s1" using ts by simp
    hence "\<forall>fuel. minimize_loop (Suc 0 + fuel) poll call True bud f s running =
        minimize_loop fuel poll call True bud f2 s2 new"
      using less.prems(1,3) p tf True by simp
    thus ?thesis using less.prems(1) by (intro exI [of _ 0]) simp
  next
    case False
    have len: "length still < length running"
      using app fin by (cases fin) auto
    obtain n where n: "n < length still" and
      eq: "\<forall>fuel. minimize_loop (Suc n + fuel) poll call True bud f sm still =
        minimize_loop fuel poll call True bud f2 s2 new"
      using less.hyps [OF len False ts less.prems(3)] by blast
    have "\<forall>fuel. minimize_loop (Suc (Suc n) + fuel) poll call True bud f s running =
        minimize_loop fuel poll call True bud f2 s2 new"
      using less.prems(1) p tf False eq by simp
    thus ?thesis using n len by (intro exI [of _ "Suc n"]) simp
  qed
qed


lemma minimize_logs_three_workers_batch:
  assumes fifo: "\<And>js. fst (poll js) @ snd (poll js) = js"
    and prog: "\<And>js. js \<noteq> [] \<Longrightarrow> fst (poll js) \<noteq> []"
  shows "minimize_logs 7 poll 3 True =
     Some [''s0'', ''s1'', ''s2'', ''u0'', ''u1'', ''u2'', ''s3'', ''s4'', ''u3'', ''u4'']"
proof -
  let ?call = CounterFunction_call
  let ?loop = "\<lambda>fuel. minimize_loop fuel poll ?call True 5"
  define s0 where "s0 = LoggingOptimizer_init 3"
  define a1 where "a1 = projr (ask_jobs 3 ?call (0::nat) s0)"
  define t1 where "t1 = snd (tell_jobs (snd (snd a1)) (fst a1))"
  define a2 where "a2 = projr (ask_jobs 2 ?call (fst (snd a1)) t1)"
  define t2 where "t2 = snd (tell_jobs (snd (snd a2)) (fst a2))"
  note ev = s0_def a1_def t1_def a2_def t2_def opt_defs CounterFunction_call_def numeral_nat
  have A1: "ask_jobs (min (5 - num_ask s0) (num_workers s0 - length ([] :: job list))) ?call 0 s0 =
      Inr (fst a1, fst (snd a1), snd (snd a1))"
    by (simp add: ev)
  have n1: "fst a1 \<noteq> []"
    by (simp add: ev)
  have T1: "tell_jobs (snd (snd a1)) (fst a1) = (None, t1)"
    by (simp add: ev)
  have A2: "ask_jobs (min (5 - num_ask t1) (num_workers t1)) ?call (fst (snd a1)) t1 =
      Inr (fst a2, fst (snd a2), snd (snd a2))"
    by (simp add: ev)
  have n2: "fst a2 \<noteq> []"
    by (simp add: ev)
  have T2: "tell_jobs (snd (snd a2)) (fst a2) = (None, t2)"
    by (simp add: ev)
  have A3: "ask_jobs (min (5 - num_ask t2) (num_workers t2)) ?call (fst (snd a2)) t2 =
      Inr ([], fst (snd a2), t2)"
    by (simp add: ev)
  have b0: "5 - num_ask s0 \<noteq> 0"
    by (simp add: ev)
  have b2: "5 - num_ask t2 = 0"
    by (simp add: ev)
  have l: "logs t2 = [''s0'', ''s1'', ''s2'', ''u0'', ''u1'', ''u2'', ''s3'', ''s4'', ''u3'', ''u4'']"
    by (simp add: ev)
  have first: "?loop (Suc fuel) 0 s0 [] = ?loop fuel (fst (snd a1)) (snd (snd a1)) (fst a1)" for fuel
    using b0 A1 by (simp add: in_order_empty [OF fifo] split: prod.splits)
  obtain k1 where k1: "k1 < length (fst a1)" and
    r1: "\<forall>fuel. ?loop (Suc k1 + fuel) (fst (snd a1)) (snd (snd a1)) (fst a1) =
      ?loop fuel (fst (snd a2)) (snd (snd a2)) (fst a2)"
    using batch_round [OF fifo prog n1 T1 A2] by blast
  obtain k2 where k2: "k2 < length (fst a2)" and
    r2: "\<forall>fuel. ?loop (Suc k2 + fuel) (fst (snd a2)) (snd (snd a2)) (fst a2) =
      ?loop fuel (fst (snd a2)) t2 []"
    using batch_round [OF fifo prog n2 T2 A3] by blast
  have last: "?loop (Suc fuel) (fst (snd a2)) t2 [] = Some (Inr (fst (snd a2), t2))" for fuel
    using b2 by simp
  have len: "length (fst a1) = 3" "length (fst a2) = 2"
    by (simp_all add: ev)
  have "?loop (Suc (Suc k1 + (Suc k2 + Suc 0))) 0 s0 [] =
      ?loop (Suc k1 + (Suc k2 + Suc 0)) (fst (snd a1)) (snd (snd a1)) (fst a1)"
    by (rule first)
  also have "\<dots> = ?loop (Suc k2 + Suc 0) (fst (snd a2)) (snd (snd a2)) (fst a2)"
    using r1 by blast
  also have "\<dots> = ?loop (Suc 0) (fst (snd a2)) t2 []"
    using r2 by blast
  also have "\<dots> = Some (Inr (fst (snd a2), t2))"
    by (rule last)
  finally have "?loop (Suc (Suc k1 + (Suc k2 + Suc 0))) 0 s0 [] = Some (Inr (fst (snd a2), t2))" .
  moreover have "Suc (Suc k1 + (Suc k2 + Suc 0)) + (3 - (k1 + k2)) = 7"
    using k1 k2 len by simp
  ultimately have "?loop 7 0 s0 [] = Some (Inr (fst (snd a2), t2))"
    using minimize_loop_more_fuel [of "Suc (Suc k1 + (Suc k2 + Suc 0))" poll ?call True 5 0 s0 "[]"
        "Inr (fst (snd a2), t2)" "3 - (k1 + k2)"]
    by (simp del: minimize_loop.simps)
  thus ?thesis
    using l by (simp add: minimize_logs_def minimize_def s0_def LoggingOptimizer_init_def
        Optimizer_init_def)
qed

text \<open>
  C9. With a budget of 5 and one worker, \<open>minimize\<close> returns and the optimizer has logged the
  strict alternation of asks and tells, in batch mode and in steady mode alike, whatever
  evaluator runs the jobs, provided that it finishes them in the order they were submitted
  and that each poll finds a finished job. With three workers in batch mode it returns, for
  every such evaluator, and has logged three asks, their three tells, two asks and their
  two tells: no ask is issued while an evaluation is outstanding. In steady mode the same
  log arises with the sequential evaluator, whose jobs are all finished at each poll; with
  an evaluator that finishes one job per poll the steady mode asks again after each tell.
  Seven turns of the loop are enough (four in steady mode with the sequential evaluator),
  and more turns change nothing.
\<close>

theorem minimize_interleavings:
  assumes "\<And>js. fst (poll js) @ snd (poll js) = js"
    and "\<And>js. js \<noteq> [] \<Longrightarrow> fst (poll js) \<noteq> []"
  shows "minimize_logs (7 + k) poll 1 batch_mode =
           Some [''s0'', ''u0'', ''s1'', ''u1'', ''s2'', ''u2'', ''s3'', ''u3'', ''s4'', ''u4''] \<and>
         minimize_logs (7 + k) poll 3 True =
           Some [''s0'', ''s1'', ''s2'', ''u0'', ''u1'', ''u2'', ''s3'', ''s4'', ''u3'', ''u4''] \<and>
         minimize_logs (4 + k) sequential 3 False =
           Some [''s0'', ''s1'', ''s2'', ''u0'', ''u1'', ''u2'', ''s3'', ''s4'', ''u3'', ''u4''] \<and>
         minimize_logs (7 + k) one_at_a_time 3 False =
           Some [''s0'', ''s1'', ''s2'', ''u0'', ''s3'', ''u1'', ''s4'', ''u2'', ''u3'', ''u4'']"
  using minimize_logs_more_fuel [OF minimize_logs_one_worker [OF assms]]
    minimize_logs_more_fuel [OF minimize_logs_three_workers_batch [OF assms]]
    minimize_logs_more_fuel [OF minimize_logs_three_workers_steady]
    minimize_logs_more_fuel [OF minimize_logs_one_at_a_time_steady]
  by blast

theorem minimize_interleavings_witness:
  "minimize_logs 7 one_at_a_time 1 False =
     Some [''s0'', ''u0'', ''s1'', ''u1'', ''s2'', ''u2'', ''s3'', ''u3'', ''s4'', ''u4''] \<and>
   minimize_logs 7 one_at_a_time 3 True =
     Some [''s0'', ''s1'', ''s2'', ''u0'', ''u1'', ''u2'', ''s3'', ''s4'', ''u3'', ''u4''] \<and>
   minimize_logs 4 sequential 3 False =
     Some [''s0'', ''s1'', ''s2'', ''u0'', ''u1'', ''u2'', ''s3'', ''s4'', ''u3'', ''u4''] \<and>
   minimize_logs 7 one_at_a_time 3 False =
     Some [''s0'', ''s1'', ''s2'', ''u0'', ''s3'', ''u1'', ''s4'', ''u2'', ''u3'', ''u4'']"
proof -
  have a: "fst (one_at_a_time js) @ snd (one_at_a_time js) = js" for js
    by (simp add: one_at_a_time_def)
  have b: "js \<noteq> [] \<Longrightarrow> fst (one_at_a_time js) \<noteq> []" for js
    by (cases js) (simp_all add: one_at_a_time_def)
  show ?thesis
    using minimize_interleavings [of one_at_a_time 0 False, OF a b] by simp
qed

section \<open>Elements of broadcast arrays\<close>

lemma has_elem_nth: "i < length xs \<Longrightarrow> has_elem xs i \<and> elem xs i = xs ! i"
  by (auto simp: has_elem_def elem_def)

lemma has_elem_in_set: "has_elem xs i \<Longrightarrow> elem xs i \<in> set xs"
  by (auto simp: has_elem_def elem_def)

lemma in_set_has_elem: "v \<in> set xs \<Longrightarrow> \<exists>i<length xs. has_elem xs i \<and> elem xs i = v"
  by (metis has_elem_nth in_set_conv_nth)

lemma has_elem_map [simp]: "has_elem (map f xs) i = has_elem xs i"
  by (simp add: has_elem_def)

lemma elem_map: "has_elem xs i \<Longrightarrow> elem (map f xs) i = f (elem xs i)"
  by (auto simp: has_elem_def elem_def)

lemma has_elem_singletons:
  "has_elem xs i \<Longrightarrow> \<not> i < length xs \<Longrightarrow> length xs = 1 \<and> elem xs i = elem xs 0"
  by (auto simp: has_elem_def elem_def)

lemma ex_broadcast_iff:
  "ex_broadcast P xs ys \<longleftrightarrow> (\<exists>i. has_elem xs i \<and> has_elem ys i \<and> P (elem xs i) (elem ys i))"
proof
  assume "ex_broadcast P xs ys"
  then show "\<exists>i. has_elem xs i \<and> has_elem ys i \<and> P (elem xs i) (elem ys i)"
    unfolding ex_broadcast_def list_ex_iff by blast
next
  assume "\<exists>i. has_elem xs i \<and> has_elem ys i \<and> P (elem xs i) (elem ys i)"
  then obtain i where i: "has_elem xs i" "has_elem ys i" "P (elem xs i) (elem ys i)" by blast
  have "\<exists>j<max (length xs) (length ys). has_elem xs j \<and> has_elem ys j \<and> P (elem xs j) (elem ys j)"
  proof (cases "i < max (length xs) (length ys)")
    case True
    then show ?thesis using i by blast
  next
    case False
    then have "\<not> i < length xs" "\<not> i < length ys" by simp_all
    then have "length xs = 1 \<and> elem xs i = elem xs 0" "length ys = 1 \<and> elem ys i = elem ys 0"
      using has_elem_singletons i(1,2) by blast+
    then have "0 < max (length xs) (length ys)" "has_elem xs 0" "has_elem ys 0"
      "P (elem xs 0) (elem ys 0)"
      using i(3) by (simp_all add: has_elem_def)
    then show ?thesis by blast
  qed
  then show "ex_broadcast P xs ys"
    unfolding ex_broadcast_def list_ex_iff by (simp add: Bex_def)
qed

lemma broadcast2_elem_full:
  assumes "broadcast2 f xs ys = Inr zs" "has_elem zs i"
  shows "has_elem xs i \<and> has_elem ys i \<and> elem zs i = f (elem xs i) (elem ys i)"
proof -
  have "has_elem xs i \<and> has_elem ys i"
  proof (cases "i < length zs")
    case True
    then show ?thesis by (rule broadcast2_has_elem[OF assms(1)])
  next
    case False
    then have "length zs = 1" using assms(2) by (simp add: has_elem_def)
    then have "length xs = 1 \<and> length ys = 1"
      using assms(1) by (auto simp: broadcast2_def split: if_splits)
    then show ?thesis by (simp add: has_elem_def)
  qed
  then show ?thesis using broadcast2_elem[OF assms] by simp
qed

section \<open>Reductions\<close>

lemma fmaximum_cases: "fmaximum x y = NaN \<or> fmaximum x y = x \<or> fmaximum x y = y"
  by (simp add: fmaximum_def)

lemma fminimum_cases: "fminimum x y = NaN \<or> fminimum x y = x \<or> fminimum x y = y"
  by (simp add: fminimum_def)

lemma foldl_fmaximum_in: "foldl fmaximum x xs = NaN \<or> foldl fmaximum x xs \<in> set (x # xs)"
proof (induction xs arbitrary: x)
  case Nil
  then show ?case by simp
next
  case (Cons a xs)
  show ?case
    using Cons.IH[of "fmaximum x a"] fmaximum_cases[of x a] by auto
qed

lemma foldl_fminimum_in: "foldl fminimum x xs = NaN \<or> foldl fminimum x xs \<in> set (x # xs)"
proof (induction xs arbitrary: x)
  case Nil
  then show ?case by simp
next
  case (Cons a xs)
  show ?case
    using Cons.IH[of "fminimum x a"] fminimum_cases[of x a] by auto
qed

lemma fless_fmaximum:
  "x \<noteq> NaN \<Longrightarrow> y \<noteq> NaN \<Longrightarrow> fless (Fin b) x \<or> fless (Fin b) y \<Longrightarrow>
   fmaximum x y \<noteq> NaN \<and> fless (Fin b) (fmaximum x y)"
  by (cases x; cases y) (auto simp: fmaximum_def)

lemma fless_fminimum:
  "x \<noteq> NaN \<Longrightarrow> y \<noteq> NaN \<Longrightarrow> fless x (Fin b) \<or> fless y (Fin b) \<Longrightarrow>
   fminimum x y \<noteq> NaN \<and> fless (fminimum x y) (Fin b)"
  by (cases x; cases y) (auto simp: fminimum_def)

lemma fmaximum_not_nan: "x \<noteq> NaN \<Longrightarrow> y \<noteq> NaN \<Longrightarrow> fmaximum x y \<noteq> NaN"
  by (simp add: fmaximum_def)

lemma fminimum_not_nan: "x \<noteq> NaN \<Longrightarrow> y \<noteq> NaN \<Longrightarrow> fminimum x y \<noteq> NaN"
  by (simp add: fminimum_def)

lemma foldl_fmaximum_above:
  "NaN \<notin> set (x # xs) \<Longrightarrow> v \<in> set (x # xs) \<Longrightarrow> fless (Fin b) v \<Longrightarrow>
   fless (Fin b) (foldl fmaximum x xs)"
proof (induction xs arbitrary: x v)
  case Nil
  then show ?case by simp
next
  case (Cons a xs)
  have nn: "x \<noteq> NaN" "a \<noteq> NaN" "NaN \<notin> set xs" using Cons.prems(1) by auto
  have n': "NaN \<notin> set (fmaximum x a # xs)"
    using nn fmaximum_not_nan[of x a] by (simp add: eq_commute)
  show ?case
  proof (cases "v \<in> set xs")
    case True
    then have "v \<in> set (fmaximum x a # xs)" by simp
    from Cons.IH[OF n' this Cons.prems(3)] show ?thesis by simp
  next
    case False
    then have "v = x \<or> v = a" using Cons.prems(2) by auto
    then have "fless (Fin b) (fmaximum x a)"
      using fless_fmaximum[OF nn(1,2), of b] Cons.prems(3) by auto
    from Cons.IH[OF n' _ this] show ?thesis by simp
  qed
qed

lemma foldl_fminimum_below:
  "NaN \<notin> set (x # xs) \<Longrightarrow> v \<in> set (x # xs) \<Longrightarrow> fless v (Fin b) \<Longrightarrow>
   fless (foldl fminimum x xs) (Fin b)"
proof (induction xs arbitrary: x v)
  case Nil
  then show ?case by simp
next
  case (Cons a xs)
  have nn: "x \<noteq> NaN" "a \<noteq> NaN" "NaN \<notin> set xs" using Cons.prems(1) by auto
  have n': "NaN \<notin> set (fminimum x a # xs)"
    using nn fminimum_not_nan[of x a] by (simp add: eq_commute)
  show ?case
  proof (cases "v \<in> set xs")
    case True
    then have "v \<in> set (fminimum x a # xs)" by simp
    from Cons.IH[OF n' this Cons.prems(3)] show ?thesis by simp
  next
    case False
    then have "v = x \<or> v = a" using Cons.prems(2) by auto
    then have "fless (fminimum x a) (Fin b)"
      using fless_fminimum[OF nn(1,2), of b] Cons.prems(3) by auto
    from Cons.IH[OF n' _ this] show ?thesis by simp
  qed
qed

lemma np_max_above:
  assumes "NaN \<notin> set y" "v \<in> set y" "fless (Fin b) v"
  shows "\<exists>m. np_max y = Inr m \<and> fless (Fin b) m"
proof (cases y)
  case Nil
  then show ?thesis using assms(2) by simp
next
  case (Cons x xs)
  then show ?thesis using foldl_fmaximum_above[of x xs v b] assms by simp
qed

lemma np_min_below:
  assumes "NaN \<notin> set y" "v \<in> set y" "fless v (Fin b)"
  shows "\<exists>m. np_min y = Inr m \<and> fless m (Fin b)"
proof (cases y)
  case Nil
  then show ?thesis using assms(2) by simp
next
  case (Cons x xs)
  then show ?thesis using foldl_fminimum_below[of x xs v b] assms by simp
qed

lemma np_max_in: "np_max y = Inr m \<Longrightarrow> m = NaN \<or> m \<in> set y"
  using foldl_fmaximum_in by (cases y) auto

lemma np_min_in: "np_min y = Inr m \<Longrightarrow> m = NaN \<or> m \<in> set y"
  using foldl_fminimum_in by (cases y) auto

lemma np_max_error: "np_max y = Inl e \<Longrightarrow> e = ValueError EmptyReduction \<and> y = []"
  by (cases y) auto

lemma np_min_error: "np_min y = Inl e \<Longrightarrow> e = ValueError EmptyReduction \<and> y = []"
  by (cases y) auto

lemma truth_value_error: "truth_value bs = Inl e \<Longrightarrow> e = ValueError AmbiguousTruthValue"
  by (cases bs rule: truth_value.cases) auto

section \<open>What the constructors return and what the range checks compute\<close>

lemma half_fun: "(*) (1 / 2) = (\<lambda>v::real. v / 2)"
  by (rule ext) simp

lemma TanhBound_init_InrD:
  assumes "TanhBound_init lo hi = Inr T"
  shows "\<exists>l h s d. lo = Some l \<and> hi = Some h \<and>
      broadcastable (as_array l) (as_array h) \<and>
      \<not> ex_broadcast (\<lambda>x y. y \<le> x) (as_array l) (as_array h) \<and>
      broadcast2 (+) (as_array h) (as_array l) = Inr s \<and>
      broadcast2 (-) (as_array h) (as_array l) = Inr d \<and>
      T = TanhBound \<lparr>a_min = Some (as_array l), a_max = Some (as_array h),
                      shape = shape_of (as_array l)\<rparr>
            (map (\<lambda>v. v / 2) s) (map (\<lambda>v. v / 2) d)"
proof -
  have n: "\<not> isl (TanhBound_init lo hi)" using assms by simp
  then obtain l h where lh: "lo = Some l" "hi = Some h"
    using TanhBound_init_fails(1)[of lo hi] by auto
  have c: "broadcastable (as_array l) (as_array h)"
    "\<not> ex_broadcast (\<lambda>x y. y \<le> x) (as_array l) (as_array h)"
    using n TanhBound_init_fails(1)[of lo hi] lh by (auto simp: bounds_clash_def)
  obtain s where s: "broadcast2 (+) (as_array h) (as_array l) = Inr s"
    using broadcast2_total[OF broadcastable_sym[OF c(1)]] by blast
  obtain d where d: "broadcast2 (-) (as_array h) (as_array l) = Inr d"
    using broadcast2_total[OF broadcastable_sym[OF c(1)]] by blast
  have "T = TanhBound \<lparr>a_min = Some (as_array l), a_max = Some (as_array h),
                      shape = shape_of (as_array l)\<rparr>
            (map (\<lambda>v. v / 2) s) (map (\<lambda>v. v / 2) d)"
    using assms lh c s d by (auto simp: TanhBound_init_def BoundTransform_init_both half_fun)
  then show ?thesis using lh c s d by blast
qed

lemma ArctanBound_init_InrD:
  assumes "ArctanBound_init lo hi = Inr T"
  shows "\<exists>l h s d. lo = Some l \<and> hi = Some h \<and>
      broadcastable (as_array l) (as_array h) \<and>
      \<not> ex_broadcast (\<lambda>x y. y \<le> x) (as_array l) (as_array h) \<and>
      broadcast2 (+) (as_array h) (as_array l) = Inr s \<and>
      broadcast2 (-) (as_array h) (as_array l) = Inr d \<and>
      T = ArctanBound \<lparr>a_min = Some (as_array l), a_max = Some (as_array h),
                      shape = shape_of (as_array l)\<rparr>
            (map (\<lambda>v. v / 2) s) (map (\<lambda>v. v / pi) d)"
proof -
  have n: "\<not> isl (ArctanBound_init lo hi)" using assms by simp
  then obtain l h where lh: "lo = Some l" "hi = Some h"
    using ArctanBound_init_fails(1)[of lo hi] by auto
  have c: "broadcastable (as_array l) (as_array h)"
    "\<not> ex_broadcast (\<lambda>x y. y \<le> x) (as_array l) (as_array h)"
    using n ArctanBound_init_fails(1)[of lo hi] lh by (auto simp: bounds_clash_def)
  obtain s where s: "broadcast2 (+) (as_array h) (as_array l) = Inr s"
    using broadcast2_total[OF broadcastable_sym[OF c(1)]] by blast
  obtain d where d: "broadcast2 (-) (as_array h) (as_array l) = Inr d"
    using broadcast2_total[OF broadcastable_sym[OF c(1)]] by blast
  have "T = ArctanBound \<lparr>a_min = Some (as_array l), a_max = Some (as_array h),
                      shape = shape_of (as_array l)\<rparr>
            (map (\<lambda>v. v / 2) s) (map (\<lambda>v. v / pi) d)"
    using assms lh c s d by (auto simp: ArctanBound_init_def BoundTransform_init_both half_fun)
  then show ?thesis using lh c s d by blast
qed

lemma Clipping_init_InrD:
  assumes "Clipping_init lo hi = Inr T"
  shows "T = Clipping \<lparr>a_min = map_option as_array lo, a_max = map_option as_array hi,
      shape = shape_of (case lo of Some l \<Rightarrow> as_array l | None \<Rightarrow> as_array (the hi))\<rparr> \<and>
    (lo \<noteq> None \<or> hi \<noteq> None) \<and> \<not> bounds_clash lo hi"
proof -
  have n: "\<not> isl (Clipping_init lo hi)" using assms by simp
  then have c: "(lo \<noteq> None \<or> hi \<noteq> None) \<and> \<not> bounds_clash lo hi"
    using Clipping_init_fails(1)[of lo hi] by auto
  show ?thesis
    using assms c
    by (cases lo; cases hi)
      (auto simp: Clipping_init_def BoundTransform_init_one BoundTransform_init_both
        bounds_clash_def split: if_splits)
qed

lemma tanh_out_of_range_eq:
  assumes "a_min bt = Some l" "a_max bt = Some h"
  shows "tanh_out_of_range bt y =
     (if \<not> broadcastable y h then Inl (ValueError BroadcastFailed)
      else if above_bound h y then Inr True
      else if \<not> broadcastable y l then Inl (ValueError BroadcastFailed)
      else Inr (below_bound l y))"
proof (cases "broadcast2 (\<lambda>v m. fless (Fin m) v) y h")
  case (Inl e)
  then show ?thesis
    using broadcast2_Inl[OF Inl] assms by (simp add: tanh_out_of_range_def)
next
  case (Inr gts)
  then have bh: "broadcastable y h" using broadcast2_Inr_iff by blast
  have g: "list_ex (\<lambda>b. b) gts \<longleftrightarrow> above_bound h y"
    using broadcast2_list_ex[OF Inr] by (simp add: above_bound_def)
  show ?thesis
  proof (cases "broadcast2 (\<lambda>v m. fless v (Fin m)) y l")
    case (Inl e)
    then show ?thesis
      using broadcast2_Inl[OF Inl] assms Inr bh g by (simp add: tanh_out_of_range_def)
  next
    case r: (Inr lts)
    then have bl: "broadcastable y l" using broadcast2_Inr_iff by blast
    have "list_ex (\<lambda>b. b) lts \<longleftrightarrow> below_bound l y"
      using broadcast2_list_ex[OF r] by (simp add: below_bound_def)
    then show ?thesis
      using assms Inr r bh bl g by (simp add: tanh_out_of_range_def)
  qed
qed

lemma list_three_cases:
  assumes "xs = [] \<Longrightarrow> P" "\<And>a. xs = [a] \<Longrightarrow> P" "\<And>a b cs. xs = a # b # cs \<Longrightarrow> P"
  shows P
  using assms by (cases xs; cases "tl xs") auto

lemma max_above_error: "max_above hi y = Inl e \<Longrightarrow> \<exists>m. e = ValueError m"
  by (auto simp: max_above_def split: option.splits sum.splits
      dest!: np_max_error truth_value_error)

lemma min_below_error: "min_below lo y = Inl e \<Longrightarrow> \<exists>m. e = ValueError m"
  by (auto simp: min_below_def split: option.splits sum.splits
      dest!: np_min_error truth_value_error)

lemma reduced_out_of_range_error: "reduced_out_of_range bt y = Inl e \<Longrightarrow> \<exists>m. e = ValueError m"
  using max_above_error min_below_error
  by (auto simp: reduced_out_of_range_def split: sum.splits bool.splits)

lemma max_above_detects:
  assumes "NaN \<notin> set y" "above_bound h y"
  shows "max_above (Some h) y \<noteq> Inr False"
proof -
  obtain i where i: "has_elem y i" "has_elem h i" "fless (Fin (elem h i)) (elem y i)"
    using assms(2) unfolding above_bound_def ex_broadcast_iff by blast
  have v: "elem y i \<in> set y" by (rule has_elem_in_set[OF i(1)])
  show ?thesis
  proof (cases h rule: list_three_cases)
    case 1
    then show ?thesis using i(2) by (simp add: has_elem_def)
  next
    case (2 b0)
    then have h: "h = [b0]" .
    then have "fless (Fin b0) (elem y i)" using i(3) by (simp add: elem_def)
    from np_max_above[OF assms(1) v this] show ?thesis
      using h by (auto simp: max_above_def)
  next
    case (3 b0 b1 bs)
    then have h: "h = b0 # b1 # bs" .
    show ?thesis
      using h by (auto simp: max_above_def split: sum.splits)
  qed
qed

lemma min_below_detects:
  assumes "NaN \<notin> set y" "below_bound l y"
  shows "min_below (Some l) y \<noteq> Inr False"
proof -
  obtain i where i: "has_elem y i" "has_elem l i" "fless (elem y i) (Fin (elem l i))"
    using assms(2) unfolding below_bound_def ex_broadcast_iff by blast
  have v: "elem y i \<in> set y" by (rule has_elem_in_set[OF i(1)])
  show ?thesis
  proof (cases l rule: list_three_cases)
    case 1
    then show ?thesis using i(2) by (simp add: has_elem_def)
  next
    case (2 b0)
    then have h: "l = [b0]" .
    then have "fless (elem y i) (Fin b0)" using i(3) by (simp add: elem_def)
    from np_min_below[OF assms(1) v this] show ?thesis
      using h by (auto simp: min_below_def)
  next
    case (3 b0 b1 bs)
    then have h: "l = b0 # b1 # bs" .
    show ?thesis
      using h by (auto simp: min_below_def split: sum.splits)
  qed
qed

section \<open>Out-of-range inputs of the backward maps\<close>

lemma raises_value_error_iff: "raises_value_error r \<longleftrightarrow> (\<exists>m. r = Inl (ValueError m))"
  by (cases r rule: raises_value_error.cases) auto

lemma check_shape_cases:
  "check_shape bt y = Inr () \<or> check_shape bt y = Inl (ValueError ShapesDoNotMatch)"
  by (simp add: check_shape_def)

lemma tanh_backward_outside:
  assumes "TanhBound_init (Some lo) (Some hi) = Inr T"
    and "above_bound (as_array hi) y \<or> below_bound (as_array lo) y"
  shows "raises_value_error (backward L T y)"
proof -
  obtain s d where T: "T = TanhBound \<lparr>a_min = Some (as_array lo), a_max = Some (as_array hi),
      shape = shape_of (as_array lo)\<rparr> (map (\<lambda>v. v / 2) s) (map (\<lambda>v. v / 2) d)"
    using TanhBound_init_InrD[OF assms(1)] by auto
  let ?bt = "\<lparr>a_min = Some (as_array lo), a_max = Some (as_array hi),
      shape = shape_of (as_array lo)\<rparr>"
  have r: "tanh_out_of_range ?bt y = Inl (ValueError BroadcastFailed) \<or>
      tanh_out_of_range ?bt y = Inr True"
    using assms(2) tanh_out_of_range_eq[of ?bt "as_array lo" "as_array hi" y] by auto
  show ?thesis
    using check_shape_cases[of ?bt y] r unfolding T by auto
qed

lemma reduced_detects:
  assumes "NaN \<notin> set y"
    and "(\<exists>h. a_max bt = Some h \<and> above_bound h y) \<or> (\<exists>l. a_min bt = Some l \<and> below_bound l y)"
  shows "reduced_out_of_range bt y \<noteq> Inr False"
proof
  assume f: "reduced_out_of_range bt y = Inr False"
  then have 1: "max_above (a_max bt) y = Inr False" and 2: "min_below (a_min bt) y = Inr False"
    by (auto simp: reduced_out_of_range_def split: sum.splits bool.splits)
  from assms(2) show False
  proof
    assume "\<exists>h. a_max bt = Some h \<and> above_bound h y"
    then show False using max_above_detects[OF assms(1)] 1 by auto
  next
    assume "\<exists>l. a_min bt = Some l \<and> below_bound l y"
    then show False using min_below_detects[OF assms(1)] 2 by auto
  qed
qed

lemma reduced_raises:
  assumes "NaN \<notin> set y"
    and "(\<exists>h. a_max bt = Some h \<and> above_bound h y) \<or> (\<exists>l. a_min bt = Some l \<and> below_bound l y)"
  shows "reduced_out_of_range bt y = Inr True \<or> (\<exists>m. reduced_out_of_range bt y = Inl (ValueError m))"
proof (cases "reduced_out_of_range bt y")
  case (Inl e)
  then show ?thesis using reduced_out_of_range_error[OF Inl] by simp
next
  case (Inr b)
  then show ?thesis using reduced_detects[OF assms] by (cases b) auto
qed

lemma arctan_backward_outside:
  assumes "ArctanBound_init (Some lo) (Some hi) = Inr T" "NaN \<notin> set y"
    and "above_bound (as_array hi) y \<or> below_bound (as_array lo) y"
  shows "raises_value_error (backward L T y)"
proof -
  obtain s d where T: "T = ArctanBound \<lparr>a_min = Some (as_array lo), a_max = Some (as_array hi),
      shape = shape_of (as_array lo)\<rparr> (map (\<lambda>v. v / 2) s) (map (\<lambda>v. v / pi) d)"
    using ArctanBound_init_InrD[OF assms(1)] by auto
  let ?bt = "\<lparr>a_min = Some (as_array lo), a_max = Some (as_array hi),
      shape = shape_of (as_array lo)\<rparr>"
  have r: "reduced_out_of_range ?bt y = Inr True \<or>
      (\<exists>m. reduced_out_of_range ?bt y = Inl (ValueError m))"
    using reduced_raises[OF assms(2), of ?bt] assms(3) by simp
  show ?thesis
    using check_shape_cases[of ?bt y] r unfolding T by auto
qed

lemma clipping_backward_outside:
  assumes "Clipping_init lo hi = Inr T" "NaN \<notin> set y"
    and "(\<exists>h. hi = Some h \<and> above_bound (as_array h) y) \<or>
         (\<exists>l. lo = Some l \<and> below_bound (as_array l) y)"
  shows "raises_value_error (backward L T y)"
proof -
  let ?bt = "\<lparr>a_min = map_option as_array lo, a_max = map_option as_array hi,
      shape = shape_of (case lo of Some l \<Rightarrow> as_array l | None \<Rightarrow> as_array (the hi))\<rparr>"
  have T: "T = Clipping ?bt" using Clipping_init_InrD[OF assms(1)] by simp
  have r: "reduced_out_of_range ?bt y = Inr True \<or>
      (\<exists>m. reduced_out_of_range ?bt y = Inl (ValueError m))"
    using reduced_raises[OF assms(2), of ?bt] assms(3) by auto
  show ?thesis
    using check_shape_cases[of ?bt y] r unfolding T by auto
qed

lemma cd_backward_outside:
  assumes "NaN \<notin> set y" "v \<in> set y" "fless (Fin 1) v \<or> fless v (Fin 0)"
  shows "backward L CumulativeDensity y = Inl (ValueError OutOfRange)"
proof -
  obtain x xs where y: "y = x # xs" using assms(2) by (cases y) auto
  from assms(3) show ?thesis
  proof
    assume "fless (Fin 1) v"
    from np_max_above[OF assms(1,2) this] show ?thesis
      by (auto simp: cd_out_of_range_def)
  next
    assume "fless v (Fin 0)"
    from np_min_below[OF assms(1,2) this] obtain n where n: "np_min y = Inr n" "fless n (Fin 0)"
      by blast
    obtain m where m: "np_max y = Inr m" using y by simp
    show ?thesis using n m by (simp add: cd_out_of_range_def)
  qed
qed

text \<open>
  C7, as amended. \<open>TanhBound.backward\<close> raises a value error when an element of the
  input compares above \<open>a_max\<close> or below \<open>a_min\<close>. \<open>ArctanBound.backward\<close>,
  \<open>Clipping.backward\<close> (for the bounds it has) and \<open>CumulativeDensity.backward\<close> (for
  the range from 0 to 1) raise a value error when the input is free of \<open>NaN\<close> and an
  element of it is outside the range. Nothing is clamped. \<open>Exponentiate.backward\<close>
  validates nothing and never raises: a negative element gives \<open>NaN\<close>.
\<close>

theorem backward_out_of_range:
  "(TanhBound_init (Some lo) (Some hi) = Inr T \<and>
      (above_bound (as_array hi) y \<or> below_bound (as_array lo) y) \<longrightarrow>
      raises_value_error (backward L T y)) \<and>
   (ArctanBound_init (Some lo) (Some hi) = Inr T \<and> NaN \<notin> set y \<and>
      (above_bound (as_array hi) y \<or> below_bound (as_array lo) y) \<longrightarrow>
      raises_value_error (backward L T y)) \<and>
   (Clipping_init lo' hi' = Inr T \<and> NaN \<notin> set y \<and>
      ((\<exists>h. hi' = Some h \<and> above_bound (as_array h) y) \<or>
       (\<exists>l. lo' = Some l \<and> below_bound (as_array l) y)) \<longrightarrow>
      raises_value_error (backward L T y)) \<and>
   (NaN \<notin> set y \<and> (\<exists>v \<in> set y. fless (Fin 1) v \<or> fless v (Fin 0)) \<longrightarrow>
      backward L CumulativeDensity y = Inl (ValueError OutOfRange)) \<and>
   \<not> isl (backward L (Exponentiate base coeff) y) \<and>
   (v < 0 \<longrightarrow> backward L (Exponentiate base coeff) [Fin v] = Inr [NaN])"
  using tanh_backward_outside[of lo hi T y L] arctan_backward_outside[of lo hi T y L]
    clipping_backward_outside[of lo' hi' T y L] cd_backward_outside[of y _ L]
  by auto

lemmas bound_defs = above_bound_def below_bound_def ex_broadcast_def has_elem_def elem_def
  upt_rec

theorem backward_out_of_range_witness:
  "TanhBound_init (Some (Scalar 0)) (Some (Scalar 1)) =
     Inr (TanhBound \<lparr>a_min = Some [0], a_max = Some [1], shape = [1]\<rparr> [1 / 2] [1 / 2]) \<and>
   ArctanBound_init (Some (Scalar 0)) (Some (Scalar 1)) =
     Inr (ArctanBound \<lparr>a_min = Some [0], a_max = Some [1], shape = [1]\<rparr> [1 / 2] [1 / pi]) \<and>
   Clipping_init (Some (Scalar 0)) None =
     Inr (Clipping \<lparr>a_min = Some [0], a_max = None, shape = [1]\<rparr>) \<and>
   above_bound [1] [Fin (1 / 2), Fin 2] \<and> below_bound [0] [Fin (- 1), Fin 2] \<and>
   NaN \<notin> set [Fin (1 / 2), Fin 2] \<and> NaN \<notin> set [Fin (- 1), Fin 2] \<and>
   raises_value_error (backward logistic
     (TanhBound \<lparr>a_min = Some [0], a_max = Some [1], shape = [1]\<rparr> [1 / 2] [1 / 2])
     [Fin (1 / 2), Fin 2]) \<and>
   raises_value_error (backward logistic
     (ArctanBound \<lparr>a_min = Some [0], a_max = Some [1], shape = [1]\<rparr> [1 / 2] [1 / pi])
     [Fin (1 / 2), Fin 2]) \<and>
   raises_value_error (backward logistic
     (Clipping \<lparr>a_min = Some [0], a_max = None, shape = [1]\<rparr>) [Fin (- 1), Fin 2]) \<and>
   backward logistic CumulativeDensity [Fin (1 / 2), Fin 2] = Inl (ValueError OutOfRange) \<and>
   \<not> isl (backward logistic (Exponentiate 10 1) [Fin (- 1)]) \<and>
   backward logistic (Exponentiate 10 1) [Fin (- 1)] = Inr [NaN]"
proof -
  have i: "TanhBound_init (Some (Scalar 0)) (Some (Scalar 1)) =
     Inr (TanhBound \<lparr>a_min = Some [0], a_max = Some [1], shape = [1]\<rparr> [1 / 2] [1 / 2])"
    "ArctanBound_init (Some (Scalar 0)) (Some (Scalar 1)) =
     Inr (ArctanBound \<lparr>a_min = Some [0], a_max = Some [1], shape = [1]\<rparr> [1 / 2] [1 / pi])"
    "Clipping_init (Some (Scalar 0)) None =
     Inr (Clipping \<lparr>a_min = Some [0], a_max = None, shape = [1]\<rparr>)"
    by (simp_all add: init_defs)
  have b: "above_bound [1] [Fin (1 / 2), Fin 2]" "below_bound [0] [Fin (- 1), Fin 2]"
    by (simp_all add: bound_defs)
  show ?thesis
    using i b
      backward_out_of_range[of "Scalar 0" "Scalar 1"
        "TanhBound \<lparr>a_min = Some [0], a_max = Some [1], shape = [1]\<rparr> [1 / 2] [1 / 2]"
        "[Fin (1 / 2), Fin 2]" logistic "Some (Scalar 0)" None 10 1 "- 1"]
      backward_out_of_range[of "Scalar 0" "Scalar 1"
        "ArctanBound \<lparr>a_min = Some [0], a_max = Some [1], shape = [1]\<rparr> [1 / 2] [1 / pi]"
        "[Fin (1 / 2), Fin 2]" logistic "Some (Scalar 0)" None 10 1 "- 1"]
      backward_out_of_range[of "Scalar 0" "Scalar 1"
        "Clipping \<lparr>a_min = Some [0], a_max = None, shape = [1]\<rparr>"
        "[Fin (- 1), Fin 2]" logistic "Some (Scalar 0)" None 10 1 "- 1"]
    by simp
qed

text \<open>
  The claim as stated fails: \<open>Exponentiate().backward\<close> on \<open>-1\<close> raises nothing and
  returns \<open>NaN\<close>; and \<open>Clipping(0, 1).backward\<close> returns the input \<open>[nan, 5]\<close>, whose
  second element is out of range, because \<open>np.max\<close> and \<open>np.min\<close> of it are \<open>nan\<close>.
\<close>

theorem backward_without_error:
  "Exponentiate_init 10 1 = Inr (Exponentiate 10 1) \<and>
   backward logistic (Exponentiate 10 1) [Fin (- 1)] = Inr [NaN] \<and>
   Clipping_init (Some (Scalar 0)) (Some (Scalar 1)) =
     Inr (Clipping \<lparr>a_min = Some [0], a_max = Some [1], shape = [1]\<rparr>) \<and>
   backward logistic (Clipping \<lparr>a_min = Some [0], a_max = Some [1], shape = [1]\<rparr>)
     [NaN, Fin 5] = Inr [NaN, Fin 5]"
  by (simp add: Exponentiate_init_def init_defs run_defs)

section \<open>The shapes that the bounded maps accept\<close>

text \<open>When the two broadcasts of \<open>_b + _a * g(x)\<close> succeed.\<close>

lemma affine_forward_succeeds:
  assumes bl: "broadcastable l h"
    and s: "broadcast2 (+) h l = Inr s" and d: "broadcast2 (-) h l = Inr d"
    and c: "length l = 1 \<or> length x = length l"
  shows "(\<exists>ys. (case broadcast2 fmul (map Fin (map ga d)) (map g x) of
                  Inl e \<Rightarrow> Inl e
                | Inr p \<Rightarrow> broadcast2 fadd (map Fin (map (\<lambda>v. v / 2) s)) p) = Inr ys)
         \<longleftrightarrow> broadcastable x h"
proof -
  have ls: "length s = (if length h = 1 then length l else length h)"
    and ld: "length d = (if length h = 1 then length l else length h)"
    using broadcast2_length[OF s] broadcast2_length[OF d] by simp_all
  have bl': "length l = length h \<or> length l = 1 \<or> length h = 1"
    using bl by (simp add: broadcastable_def)
  have key: "(length d = length x \<or> length d = 1 \<or> length x = 1) \<longleftrightarrow>
      (length x = length h \<or> length x = 1 \<or> length h = 1)"
  proof (cases "length h = 1")
    case True
    then show ?thesis using ld c by auto
  next
    case False
    then show ?thesis using ld by auto
  qed
  show ?thesis
  proof (cases "broadcast2 fmul (map Fin (map ga d)) (map g x)")
    case (Inl e)
    then have "\<not> broadcastable (map Fin (map ga d)) (map g x)"
      using broadcast2_Inl by blast
    then have "\<not> (length d = length x \<or> length d = 1 \<or> length x = 1)"
      by (simp add: broadcastable_def)
    then have "\<not> broadcastable x h"
      using key by (simp add: broadcastable_def)
    then show ?thesis using Inl by simp
  next
    case (Inr p)
    then have "broadcastable (map Fin (map ga d)) (map g x)"
      using broadcast2_Inr_iff by blast
    then have b1: "length d = length x \<or> length d = 1 \<or> length x = 1"
      by (simp add: broadcastable_def)
    have lp: "length p = (if length d = 1 then length x else length d)"
      using broadcast2_length[OF Inr] by simp
    have xh: "broadcastable x h"
      using b1 key by (simp add: broadcastable_def)
    have "length s = length d" using ls ld by simp
    then have "length s = length p \<or> length s = 1 \<or> length p = 1"
      using lp b1 by (cases "length d = 1") auto
    then have "broadcastable (map Fin (map (\<lambda>v. v / 2) s)) p"
      by (simp add: broadcastable_def)
    then obtain ys where "broadcast2 fadd (map Fin (map (\<lambda>v. v / 2) s)) p = Inr ys"
      using broadcast2_total by blast
    then show ?thesis using Inr xh by simp
  qed
qed

lemma check_shape_iff:
  "check_shape \<lparr>a_min = lo, a_max = hi, shape = shape_of l\<rparr> x = Inr () \<longleftrightarrow>
     length l = 1 \<or> length x = length l"
  by (auto simp: check_shape_def shape_of_def)

lemma check_shape_Inl:
  "\<not> (length l = 1 \<or> length x = length l) \<Longrightarrow>
   check_shape \<lparr>a_min = lo, a_max = hi, shape = shape_of l\<rparr> x =
     Inl (ValueError ShapesDoNotMatch)"
  by (auto simp: check_shape_def shape_of_def)

lemma affine_backward_succeeds:
  assumes bl: "broadcastable l h"
    and s: "broadcast2 (+) h l = Inr s" and d: "broadcast2 (-) h l = Inr d"
    and c: "length l = 1 \<or> length y = length l"
    and yh: "broadcastable y h"
  shows "\<exists>u q. broadcast2 fsub y (map Fin (map gb s)) = Inr u \<and>
               broadcast2 fdiv u (map Fin (map ga d)) = Inr q"
proof -
  have ls: "length s = (if length h = 1 then length l else length h)"
    and ld: "length d = (if length h = 1 then length l else length h)"
    using broadcast2_length[OF s] broadcast2_length[OF d] by simp_all
  have yh': "length y = length h \<or> length y = 1 \<or> length h = 1"
    using yh by (simp add: broadcastable_def)
  have ys: "length y = length s \<or> length y = 1 \<or> length s = 1"
    using ls c yh' by (cases "length h = 1") auto
  then have "broadcastable y (map Fin (map gb s))" by (simp add: broadcastable_def)
  then obtain u where u: "broadcast2 fsub y (map Fin (map gb s)) = Inr u"
    using broadcast2_total by blast
  have lu: "length u = (if length y = 1 then length s else length y)"
    using broadcast2_length[OF u] by simp
  have "length s = length d" using ls ld by simp
  then have "length u = length d \<or> length u = 1 \<or> length d = 1"
    using lu ys by (cases "length y = 1") auto
  then have "broadcastable u (map Fin (map ga d))" by (simp add: broadcastable_def)
  then obtain q where "broadcast2 fdiv u (map Fin (map ga d)) = Inr q"
    using broadcast2_total by blast
  then show ?thesis using u by blast
qed

lemma tanh_backward_unfold:
  assumes T: "T = TanhBound \<lparr>a_min = Some l, a_max = Some h, shape = shape_of l\<rparr>
              (map (\<lambda>v. v / 2) s) (map (\<lambda>v. v / 2) d)"
  shows "backward L T y =
     (if \<not> (length l = 1 \<or> length y = length l) then Inl (ValueError ShapesDoNotMatch)
      else if \<not> broadcastable y h then Inl (ValueError BroadcastFailed)
      else if above_bound h y then Inl (ValueError OutOfRange)
      else if \<not> broadcastable y l then Inl (ValueError BroadcastFailed)
      else if below_bound l y then Inl (ValueError OutOfRange)
      else (case broadcast2 fsub y (map Fin (map (\<lambda>v. v / 2) s)) of
              Inl e \<Rightarrow> Inl e
            | Inr u \<Rightarrow>
                (case broadcast2 fdiv u (map Fin (map (\<lambda>v. v / 2) d)) of
                   Inl e \<Rightarrow> Inl e
                 | Inr q \<Rightarrow> Inr (map farctanh q))))"
proof -
  let ?bt = "\<lparr>a_min = Some l, a_max = Some h, shape = shape_of l\<rparr>"
  have o: "tanh_out_of_range ?bt y =
     (if \<not> broadcastable y h then Inl (ValueError BroadcastFailed)
      else if above_bound h y then Inr True
      else if \<not> broadcastable y l then Inl (ValueError BroadcastFailed)
      else Inr (below_bound l y))"
    by (rule tanh_out_of_range_eq) simp_all
  show ?thesis
  proof (cases "length l = 1 \<or> length y = length l")
    case True
    then have "check_shape ?bt y = Inr ()" by (simp add: check_shape_iff)
    then show ?thesis unfolding T using True o by simp
  next
    case False
    then show ?thesis unfolding T using check_shape_Inl[OF False, of "Some l" "Some h"] by simp
  qed
qed

lemma bounded_forward_returns:
  assumes bl: "broadcastable l h"
    and s: "broadcast2 (+) h l = Inr s" and d: "broadcast2 (-) h l = Inr d"
  shows "(\<exists>r. (case check_shape \<lparr>a_min = Some l, a_max = Some h, shape = shape_of l\<rparr> x of
                 Inl e \<Rightarrow> Inl e
               | Inr u \<Rightarrow>
                   (case broadcast2 fmul (map Fin (map ga d)) (map g x) of
                      Inl e \<Rightarrow> Inl e
                    | Inr p \<Rightarrow> broadcast2 fadd (map Fin (map (\<lambda>v. v / 2) s)) p)) = Inr r) \<longleftrightarrow>
         check_shape \<lparr>a_min = Some l, a_max = Some h, shape = shape_of l\<rparr> x = Inr () \<and>
         broadcastable x h"
proof (cases "length l = 1 \<or> length x = length l")
  case True
  then have c: "check_shape \<lparr>a_min = Some l, a_max = Some h, shape = shape_of l\<rparr> x = Inr ()"
    by (simp add: check_shape_iff)
  show ?thesis
    using affine_forward_succeeds[OF bl s d True, of ga g] c by simp
next
  case False
  then show ?thesis using check_shape_Inl[OF False, of "Some l" "Some h"] by simp
qed

lemma tanh_forward_returns:
  assumes init: "TanhBound_init lo hi = Inr T" and bt: "bounds_of T = Some bt"
  shows "(\<exists>r. forward L T x = Inr r) \<longleftrightarrow>
     check_shape bt x = Inr () \<and>
     (case hi of None \<Rightarrow> True | Some h \<Rightarrow> broadcastable x (as_array h))"
proof -
  obtain l h s d where lh: "lo = Some l" "hi = Some h"
    and bl: "broadcastable (as_array l) (as_array h)"
    and s: "broadcast2 (+) (as_array h) (as_array l) = Inr s"
    and d: "broadcast2 (-) (as_array h) (as_array l) = Inr d"
    and T: "T = TanhBound \<lparr>a_min = Some (as_array l), a_max = Some (as_array h),
              shape = shape_of (as_array l)\<rparr> (map (\<lambda>v. v / 2) s) (map (\<lambda>v. v / 2) d)"
    using TanhBound_init_InrD[OF init] by blast
  have b: "bt = \<lparr>a_min = Some (as_array l), a_max = Some (as_array h),
              shape = shape_of (as_array l)\<rparr>"
    using bt T by simp
  show ?thesis
    using bounded_forward_returns[OF bl s d, of "\<lambda>v. v / 2" ftanh x]
    unfolding T b lh by simp
qed

lemma arctan_forward_returns:
  assumes init: "ArctanBound_init lo hi = Inr T" and bt: "bounds_of T = Some bt"
  shows "(\<exists>r. forward L T x = Inr r) \<longleftrightarrow>
     check_shape bt x = Inr () \<and>
     (case hi of None \<Rightarrow> True | Some h \<Rightarrow> broadcastable x (as_array h))"
proof -
  obtain l h s d where lh: "lo = Some l" "hi = Some h"
    and bl: "broadcastable (as_array l) (as_array h)"
    and s: "broadcast2 (+) (as_array h) (as_array l) = Inr s"
    and d: "broadcast2 (-) (as_array h) (as_array l) = Inr d"
    and T: "T = ArctanBound \<lparr>a_min = Some (as_array l), a_max = Some (as_array h),
              shape = shape_of (as_array l)\<rparr> (map (\<lambda>v. v / 2) s) (map (\<lambda>v. v / pi) d)"
    using ArctanBound_init_InrD[OF init] by blast
  have b: "bt = \<lparr>a_min = Some (as_array l), a_max = Some (as_array h),
              shape = shape_of (as_array l)\<rparr>"
    using bt T by simp
  show ?thesis
    using bounded_forward_returns[OF bl s d, of "\<lambda>v. v / pi" farctan x]
    unfolding T b lh by simp
qed

lemma clip_returns:
  assumes "length l = 1 \<or> length x = length l"
  shows "(\<exists>r. (case broadcast2 fmaximum x (map Fin l) of
                 Inl e \<Rightarrow> Inl e
               | Inr x' \<Rightarrow> broadcast2 fminimum x' (map Fin h)) = Inr r) \<longleftrightarrow>
         broadcastable x h"
proof -
  have "broadcastable x (map Fin l)"
    using assms by (auto simp: broadcastable_def)
  then obtain x' where x': "broadcast2 fmaximum x (map Fin l) = Inr x'"
    using broadcast2_total by blast
  have lx: "length x' = (if length x = 1 then length l else length x)"
    using broadcast2_length[OF x'] by simp
  have "(\<exists>r. broadcast2 fminimum x' (map Fin h) = Inr r) \<longleftrightarrow> broadcastable x' (map Fin h)"
    by (rule broadcast2_Inr_iff)
  then show ?thesis
    using x' lx assms by (auto simp: broadcastable_def split: if_splits)
qed

lemma np_clip_both:
  "np_clip x (Some l) (Some h) =
     (case broadcast2 fmaximum x (map Fin l) of
        Inl e \<Rightarrow> Inl e
      | Inr x' \<Rightarrow> broadcast2 fminimum x' (map Fin h))"
  by (simp add: np_clip_def split: sum.splits)

lemma clipping_forward_returns:
  assumes init: "Clipping_init lo hi = Inr T" and bt: "bounds_of T = Some bt"
  shows "(\<exists>r. forward L T x = Inr r) \<longleftrightarrow>
     check_shape bt x = Inr () \<and>
     (case hi of None \<Rightarrow> True | Some h \<Rightarrow> broadcastable x (as_array h))"
proof -
  let ?bt = "\<lparr>a_min = map_option as_array lo, a_max = map_option as_array hi,
      shape = shape_of (case lo of Some l \<Rightarrow> as_array l | None \<Rightarrow> as_array (the hi))\<rparr>"
  have T: "T = Clipping ?bt" and some: "lo \<noteq> None \<or> hi \<noteq> None"
    and nc: "\<not> bounds_clash lo hi"
    using Clipping_init_InrD[OF init] by simp_all
  have b: "bt = ?bt" using bt T by simp
  show ?thesis
  proof (cases lo)
    case None
    then obtain h where h: "hi = Some h" using some by auto
    have "(\<exists>r. broadcast2 fminimum x (map Fin (as_array h)) = Inr r) \<longleftrightarrow>
        broadcastable x (map Fin (as_array h))"
      by (rule broadcast2_Inr_iff)
    then show ?thesis
      unfolding T b None h
      by (auto simp: np_clip_def check_shape_def shape_of_def broadcastable_def)
  next
    case (Some l)
    note l = Some
    show ?thesis
    proof (cases hi)
      case None
      have "(\<exists>r. broadcast2 fmaximum x (map Fin (as_array l)) = Inr r) \<longleftrightarrow>
          broadcastable x (map Fin (as_array l))"
        by (rule broadcast2_Inr_iff)
      then show ?thesis
        unfolding T b None l
        by (auto simp: np_clip_def check_shape_def shape_of_def broadcastable_def)
    next
      case (Some h)
      have bl: "broadcastable (as_array l) (as_array h)"
        using nc l Some by (simp add: bounds_clash_def)
      show ?thesis
      proof (cases "length (as_array l) = 1 \<or> length x = length (as_array l)")
        case True
        then have c: "check_shape ?bt x = Inr ()"
          using l by (simp add: check_shape_def shape_of_def)
        show ?thesis
          using clip_returns[OF True, of "as_array h"] c
          unfolding T b l Some by (simp add: np_clip_both)
      next
        case False
        then have "check_shape ?bt x = Inl (ValueError ShapesDoNotMatch)"
          using l by (auto simp: check_shape_def shape_of_def)
        then show ?thesis unfolding T b l Some by simp
      qed
    qed
  qed
qed


lemma singleton_list: "length xs = 1 \<Longrightarrow> \<exists>v. xs = [v]"
  by (cases xs) auto

lemma reduced_singletons:
  assumes "\<forall>l. a_min bt = Some l \<longrightarrow> length l = 1" "\<forall>h. a_max bt = Some h \<longrightarrow> length h = 1"
  shows "(\<exists>b. reduced_out_of_range bt y = Inr b) \<or>
         (y = [] \<and> reduced_out_of_range bt y = Inl (ValueError EmptyReduction))"
proof (cases y)
  case Nil
  show ?thesis
  proof (cases "a_max bt")
    case None
    then show ?thesis
      using Nil by (cases "a_min bt") (auto simp: reduced_out_of_range_def max_above_def min_below_def)
  next
    case (Some h)
    then show ?thesis
      using Nil by (simp add: reduced_out_of_range_def max_above_def)
  qed
next
  case (Cons v vs)
  have mx: "\<exists>b. max_above (a_max bt) y = Inr b"
  proof (cases "a_max bt")
    case None
    then show ?thesis by (auto simp: max_above_def)
  next
    case (Some h)
    then obtain hv where "h = [hv]" using assms(2) singleton_list by blast
    then show ?thesis using Some Cons by (simp add: max_above_def)
  qed
  have mn: "\<exists>b. min_below (a_min bt) y = Inr b"
  proof (cases "a_min bt")
    case None
    then show ?thesis by (auto simp: min_below_def)
  next
    case (Some l)
    then obtain lv where "l = [lv]" using assms(1) singleton_list by blast
    then show ?thesis using Some Cons by (simp add: min_below_def)
  qed
  from mx obtain b where b: "max_above (a_max bt) y = Inr b" by blast
  from mn obtain c where c: "min_below (a_min bt) y = Inr c" by blast
  show ?thesis
    using b c by (cases b) (auto simp: reduced_out_of_range_def)
qed

lemma tanh_backward_singletons:
  assumes init: "TanhBound_init lo hi = Inr T"
    and one: "\<forall>l. lo = Some l \<longrightarrow> length (as_array l) = 1"
      "\<forall>h. hi = Some h \<longrightarrow> length (as_array h) = 1"
  shows "(\<exists>r. backward L T y = Inr r) \<or> backward L T y = Inl (ValueError OutOfRange)"
proof -
  obtain l h s d where lh: "lo = Some l" "hi = Some h"
    and bl: "broadcastable (as_array l) (as_array h)"
    and s: "broadcast2 (+) (as_array h) (as_array l) = Inr s"
    and d: "broadcast2 (-) (as_array h) (as_array l) = Inr d"
    and T: "T = TanhBound \<lparr>a_min = Some (as_array l), a_max = Some (as_array h),
              shape = shape_of (as_array l)\<rparr> (map (\<lambda>v. v / 2) s) (map (\<lambda>v. v / 2) d)"
    using TanhBound_init_InrD[OF init] by blast
  have l1: "length (as_array l) = 1" and h1: "length (as_array h) = 1"
    using one lh by simp_all
  have c: "length (as_array l) = 1 \<or> length y = length (as_array l)" using l1 by simp
  have yh: "broadcastable y (as_array h)" and yl: "broadcastable y (as_array l)"
    using l1 h1 by (simp_all add: broadcastable_def)
  obtain u q where "broadcast2 fsub y (map Fin (map (\<lambda>v. v / 2) s)) = Inr u"
    "broadcast2 fdiv u (map Fin (map (\<lambda>v. v / 2) d)) = Inr q"
    using affine_backward_succeeds[OF bl s d c yh] by blast
  then show ?thesis
    using tanh_backward_unfold[OF T, of L y] c yh yl by simp
qed

lemma arctan_backward_singletons:
  assumes init: "ArctanBound_init lo hi = Inr T"
    and one: "\<forall>l. lo = Some l \<longrightarrow> length (as_array l) = 1"
      "\<forall>h. hi = Some h \<longrightarrow> length (as_array h) = 1"
  shows "(\<exists>r. backward L T y = Inr r) \<or> backward L T y = Inl (ValueError OutOfRange) \<or>
         (y = [] \<and> backward L T y = Inl (ValueError EmptyReduction))"
proof -
  obtain l h s d where lh: "lo = Some l" "hi = Some h"
    and bl: "broadcastable (as_array l) (as_array h)"
    and s: "broadcast2 (+) (as_array h) (as_array l) = Inr s"
    and d: "broadcast2 (-) (as_array h) (as_array l) = Inr d"
    and T: "T = ArctanBound \<lparr>a_min = Some (as_array l), a_max = Some (as_array h),
              shape = shape_of (as_array l)\<rparr> (map (\<lambda>v. v / 2) s) (map (\<lambda>v. v / pi) d)"
    using ArctanBound_init_InrD[OF init] by blast
  let ?bt = "\<lparr>a_min = Some (as_array l), a_max = Some (as_array h),
              shape = shape_of (as_array l)\<rparr>"
  have l1: "length (as_array l) = 1" and h1: "length (as_array h) = 1"
    using one lh by simp_all
  have c: "length (as_array l) = 1 \<or> length y = length (as_array l)" using l1 by simp
  have cs: "check_shape ?bt y = Inr ()" using c by (simp add: check_shape_iff)
  have yh: "broadcastable y (as_array h)"
    using h1 by (simp add: broadcastable_def)
  obtain u q where uq: "broadcast2 fsub y (map Fin (map (\<lambda>v. v / 2) s)) = Inr u"
    "broadcast2 fdiv u (map Fin (map (\<lambda>v. v / pi) d)) = Inr q"
    using affine_backward_succeeds[OF bl s d c yh] by blast
  have "(\<exists>b. reduced_out_of_range ?bt y = Inr b) \<or>
      (y = [] \<and> reduced_out_of_range ?bt y = Inl (ValueError EmptyReduction))"
    using reduced_singletons[of ?bt y] l1 h1 by simp
  then show ?thesis
  proof
    assume "\<exists>b. reduced_out_of_range ?bt y = Inr b"
    then obtain b where "reduced_out_of_range ?bt y = Inr b" by blast
    then show ?thesis unfolding T using cs uq by (cases b) simp_all
  next
    assume "y = [] \<and> reduced_out_of_range ?bt y = Inl (ValueError EmptyReduction)"
    then have e: "y = []" "reduced_out_of_range ?bt y = Inl (ValueError EmptyReduction)"
      by blast+
    show ?thesis unfolding T using cs e by simp
  qed
qed

lemma clipping_backward_singletons:
  assumes init: "Clipping_init lo hi = Inr T"
    and one: "\<forall>l. lo = Some l \<longrightarrow> length (as_array l) = 1"
      "\<forall>h. hi = Some h \<longrightarrow> length (as_array h) = 1"
  shows "(\<exists>r. backward L T y = Inr r) \<or> backward L T y = Inl (ValueError OutOfRange) \<or>
         (y = [] \<and> backward L T y = Inl (ValueError EmptyReduction))"
proof -
  let ?bt = "\<lparr>a_min = map_option as_array lo, a_max = map_option as_array hi,
      shape = shape_of (case lo of Some l \<Rightarrow> as_array l | None \<Rightarrow> as_array (the hi))\<rparr>"
  have T: "T = Clipping ?bt" and some: "lo \<noteq> None \<or> hi \<noteq> None"
    using Clipping_init_InrD[OF init] by simp_all
  have "length (case lo of Some l \<Rightarrow> as_array l | None \<Rightarrow> as_array (the hi)) = 1"
    using one some by (cases lo; cases hi) auto
  then have cs: "check_shape ?bt y = Inr ()"
    by (simp add: check_shape_def shape_of_def)
  have "(\<exists>b. reduced_out_of_range ?bt y = Inr b) \<or>
      (y = [] \<and> reduced_out_of_range ?bt y = Inl (ValueError EmptyReduction))"
    using reduced_singletons[of ?bt y] one by auto
  then show ?thesis
  proof
    assume "\<exists>b. reduced_out_of_range ?bt y = Inr b"
    then obtain b where "reduced_out_of_range ?bt y = Inr b" by blast
    then show ?thesis unfolding T using cs by (cases b) simp_all
  next
    assume "y = [] \<and> reduced_out_of_range ?bt y = Inl (ValueError EmptyReduction)"
    then have e: "y = []" "reduced_out_of_range ?bt y = Inl (ValueError EmptyReduction)"
      by blast+
    show ?thesis unfolding T using cs e by simp
  qed
qed


lemma check_shape_outcomes:
  assumes "bounds_of T = Some bt"
  shows "(shape bt \<noteq> [1] \<and> shape_of x \<noteq> shape bt \<longrightarrow>
            forward L T x = Inl (ValueError ShapesDoNotMatch) \<and>
            backward L T x = Inl (ValueError ShapesDoNotMatch)) \<and>
         (shape bt = [1] \<longrightarrow>
            check_shape bt x = Inr () \<and>
            backward L T x \<noteq> Inl (ValueError ShapesDoNotMatch))"
proof (cases T)
  case (TanhBound bt' b a)
  with assms have [simp]: "bt' = bt" by simp
  show ?thesis
    using broadcast2_not_shape tanh_out_of_range_not_shape
    unfolding TanhBound
    by (auto simp: check_shape_def split: sum.splits bool.splits)
next
  case (Clipping bt')
  with assms have [simp]: "bt' = bt" by simp
  show ?thesis
    using np_clip_not_shape reduced_out_of_range_not_shape
    unfolding Clipping
    by (auto simp: check_shape_def split: sum.splits bool.splits)
next
  case (ArctanBound bt' b a)
  with assms have [simp]: "bt' = bt" by simp
  show ?thesis
    using broadcast2_not_shape reduced_out_of_range_not_shape
    unfolding ArctanBound
    by (auto simp: check_shape_def split: sum.splits bool.splits)
qed (use assms in simp_all)

lemma init_shape:
  assumes "init \<in> {TanhBound_init, ArctanBound_init, Clipping_init}"
    and "init lo hi = Inr T" and "bounds_of T = Some bt"
  shows "(lo \<noteq> None \<or> hi \<noteq> None) \<and>
         shape bt = shape_of (case lo of Some l \<Rightarrow> as_array l | None \<Rightarrow> as_array (the hi))"
  using assms TanhBound_init_InrD[of lo hi T] ArctanBound_init_InrD[of lo hi T]
    Clipping_init_InrD[of lo hi T]
  by auto

text \<open>
  C6, as amended. For a bound-based transform whose shape is not \<open>(1,)\<close>, \<open>forward\<close> and
  \<open>backward\<close> raise the value error of the shape check when the shape of the input
  differs from the shape of the transform. When the shape of the transform is \<open>(1,)\<close>, the
  shape check accepts an input of any shape. \<open>forward\<close> returns exactly when the shape
  check passes and the input broadcasts against \<open>a_max\<close>, if there is one. When each bound
  that is given has a single element, \<open>forward\<close> returns for every input, and \<open>backward\<close>
  returns, or raises its out-of-range error, or (the input being empty) raises numpy's
  error for a reduction of an empty array.
\<close>

theorem shape_check_then_broadcast:
  assumes "init \<in> {TanhBound_init, ArctanBound_init, Clipping_init}"
    and "init lo hi = Inr T" and "bounds_of T = Some bt"
  shows "(shape bt \<noteq> [1] \<and> shape_of x \<noteq> shape bt \<longrightarrow>
            forward L T x = Inl (ValueError ShapesDoNotMatch) \<and>
            backward L T x = Inl (ValueError ShapesDoNotMatch)) \<and>
         (shape bt = [1] \<longrightarrow>
            check_shape bt x = Inr () \<and>
            backward L T x \<noteq> Inl (ValueError ShapesDoNotMatch)) \<and>
         ((\<exists>r. forward L T x = Inr r) \<longleftrightarrow>
            check_shape bt x = Inr () \<and>
            (case hi of None \<Rightarrow> True | Some h \<Rightarrow> broadcastable x (as_array h))) \<and>
         ((\<forall>l. lo = Some l \<longrightarrow> length (as_array l) = 1) \<and>
          (\<forall>h. hi = Some h \<longrightarrow> length (as_array h) = 1) \<longrightarrow>
            (\<exists>r. forward L T x = Inr r) \<and>
            ((\<exists>r. backward L T x = Inr r) \<or>
             backward L T x = Inl (ValueError OutOfRange) \<or>
             (x = [] \<and> backward L T x = Inl (ValueError EmptyReduction))))"
proof -
  note A = check_shape_outcomes[OF assms(3), of x L]
  have B: "(\<exists>r. forward L T x = Inr r) \<longleftrightarrow>
      check_shape bt x = Inr () \<and>
      (case hi of None \<Rightarrow> True | Some h \<Rightarrow> broadcastable x (as_array h))"
    using assms tanh_forward_returns[of lo hi T bt L x] arctan_forward_returns[of lo hi T bt L x]
      clipping_forward_returns[of lo hi T bt L x]
    by blast
  have C: "(\<exists>r. forward L T x = Inr r) \<and>
      ((\<exists>r. backward L T x = Inr r) \<or>
       backward L T x = Inl (ValueError OutOfRange) \<or>
       (x = [] \<and> backward L T x = Inl (ValueError EmptyReduction)))"
    if one: "(\<forall>l. lo = Some l \<longrightarrow> length (as_array l) = 1) \<and>
          (\<forall>h. hi = Some h \<longrightarrow> length (as_array h) = 1)"
  proof -
    have "shape bt = [1]"
      using init_shape[OF assms] one by (cases lo; cases hi) (auto simp: shape_of_def)
    then have c: "check_shape bt x = Inr ()" using A by simp
    have "case hi of None \<Rightarrow> True | Some h \<Rightarrow> broadcastable x (as_array h)"
      using one by (cases hi) (auto simp: broadcastable_def)
    then have f: "\<exists>r. forward L T x = Inr r" using B c by simp
    have "(\<exists>r. backward L T x = Inr r) \<or>
       backward L T x = Inl (ValueError OutOfRange) \<or>
       (x = [] \<and> backward L T x = Inl (ValueError EmptyReduction))"
      using assms(1,2) one tanh_backward_singletons[of lo hi T L x]
        arctan_backward_singletons[of lo hi T L x] clipping_backward_singletons[of lo hi T L x]
      by blast
    then show ?thesis using f by simp
  qed
  show ?thesis using A B C by blast
qed

theorem shape_check_then_broadcast_witness:
  "TanhBound_init (Some (ArrayLike [0, 0])) (Some (ArrayLike [1, 1])) =
     Inr (TanhBound \<lparr>a_min = Some [0, 0], a_max = Some [1, 1], shape = [2]\<rparr> [1 / 2, 1 / 2] [1 / 2, 1 / 2]) \<and>
   forward logistic (TanhBound \<lparr>a_min = Some [0, 0], a_max = Some [1, 1], shape = [2]\<rparr> [1 / 2, 1 / 2] [1 / 2, 1 / 2])
     [Fin 0, Fin 0, Fin 0] = Inl (ValueError ShapesDoNotMatch) \<and>
   backward logistic (TanhBound \<lparr>a_min = Some [0, 0], a_max = Some [1, 1], shape = [2]\<rparr> [1 / 2, 1 / 2] [1 / 2, 1 / 2])
     [Fin 0, Fin 0, Fin 0] = Inl (ValueError ShapesDoNotMatch) \<and>
   Clipping_init (Some (Scalar 0)) (Some (Scalar 1)) =
     Inr (Clipping \<lparr>a_min = Some [0], a_max = Some [1], shape = [1]\<rparr>) \<and>
   check_shape \<lparr>a_min = Some [0], a_max = Some [1], shape = [1]\<rparr> [Fin 0, Fin 2, Fin (1 / 2)] = Inr () \<and>
   forward logistic (Clipping \<lparr>a_min = Some [0], a_max = Some [1], shape = [1]\<rparr>) [Fin 0, Fin 2, Fin (1 / 2)] =
     Inr [Fin 0, Fin 1, Fin (1 / 2)] \<and>
   backward logistic (Clipping \<lparr>a_min = Some [0], a_max = Some [1], shape = [1]\<rparr>) [Fin 0, Fin 2, Fin (1 / 2)] =
     Inl (ValueError OutOfRange) \<and>
   backward logistic (Clipping \<lparr>a_min = Some [0], a_max = Some [1], shape = [1]\<rparr>) [Fin 0, Fin 1, Fin (1 / 2)] =
     Inr [Fin 0, Fin 1, Fin (1 / 2)]"
proof -
  have m: "TanhBound_init \<in> {TanhBound_init, ArctanBound_init, Clipping_init}"
    "Clipping_init \<in> {TanhBound_init, ArctanBound_init, Clipping_init}"
    by simp_all
  have i: "TanhBound_init (Some (ArrayLike [0, 0])) (Some (ArrayLike [1, 1])) =
     Inr (TanhBound \<lparr>a_min = Some [0, 0], a_max = Some [1, 1], shape = [2]\<rparr> [1 / 2, 1 / 2] [1 / 2, 1 / 2])"
    "Clipping_init (Some (Scalar 0)) (Some (Scalar 1)) =
     Inr (Clipping \<lparr>a_min = Some [0], a_max = Some [1], shape = [1]\<rparr>)"
    by (simp_all add: init_defs)
  have b: "bounds_of (TanhBound \<lparr>a_min = Some [0, 0], a_max = Some [1, 1], shape = [2]\<rparr> [1 / 2, 1 / 2] [1 / 2, 1 / 2]) =
      Some \<lparr>a_min = Some [0, 0], a_max = Some [1, 1], shape = [2]\<rparr>"
    "bounds_of (Clipping \<lparr>a_min = Some [0], a_max = Some [1], shape = [1]\<rparr>) =
      Some \<lparr>a_min = Some [0], a_max = Some [1], shape = [1]\<rparr>"
    by simp_all
  have r: "forward logistic (Clipping \<lparr>a_min = Some [0], a_max = Some [1], shape = [1]\<rparr>) [Fin 0, Fin 2, Fin (1 / 2)] =
     Inr [Fin 0, Fin 1, Fin (1 / 2)]"
    "backward logistic (Clipping \<lparr>a_min = Some [0], a_max = Some [1], shape = [1]\<rparr>) [Fin 0, Fin 2, Fin (1 / 2)] =
     Inl (ValueError OutOfRange)"
    "backward logistic (Clipping \<lparr>a_min = Some [0], a_max = Some [1], shape = [1]\<rparr>) [Fin 0, Fin 1, Fin (1 / 2)] =
     Inr [Fin 0, Fin 1, Fin (1 / 2)]"
    by (simp_all add: run_defs broadcast2_def shape_of_def)
  show ?thesis
    using i r
      shape_check_then_broadcast[OF m(1) i(1) b(1), of "[Fin 0, Fin 0, Fin 0]" logistic]
      shape_check_then_broadcast[OF m(2) i(2) b(2), of "[Fin 0, Fin 2, Fin (1 / 2)]" logistic]
    by (simp add: shape_of_def)
qed

text \<open>
  The claim as stated fails: \<open>TanhBound([0.], [1., 2., 3.])\<close> has the shape \<open>(1,)\<close> of its
  lower bound, and an input of two elements passes its shape check; but the input does not
  broadcast against the three elements of \<open>a_max\<close>, and \<open>forward\<close> and \<open>backward\<close> raise
  numpy's value error for operands that cannot be broadcast together.
\<close>

theorem shape_one_input_rejected:
  "TanhBound_init (Some (ArrayLike [0])) (Some (ArrayLike [1, 2, 3])) =
     Inr (TanhBound \<lparr>a_min = Some [0], a_max = Some [1, 2, 3], shape = [1]\<rparr>
            [1 / 2, 1, 3 / 2] [1 / 2, 1, 3 / 2]) \<and>
   check_shape \<lparr>a_min = Some [0], a_max = Some [1, 2, 3], shape = [1]\<rparr> [Fin 0, Fin 0] = Inr () \<and>
   forward logistic
     (TanhBound \<lparr>a_min = Some [0], a_max = Some [1, 2, 3], shape = [1]\<rparr>
        [1 / 2, 1, 3 / 2] [1 / 2, 1, 3 / 2])
     [Fin 0, Fin 0] = Inl (ValueError BroadcastFailed) \<and>
   backward logistic
     (TanhBound \<lparr>a_min = Some [0], a_max = Some [1, 2, 3], shape = [1]\<rparr>
        [1 / 2, 1, 3 / 2] [1 / 2, 1, 3 / 2])
     [Fin 0, Fin 0] = Inl (ValueError BroadcastFailed)"
  by (simp add: init_defs run_defs)

section \<open>ArctanBound with bounds of several elements\<close>

lemma arctan_backward_vector_bounds:
  assumes T: "T = ArctanBound \<lparr>a_min = Some l, a_max = Some h, shape = sh\<rparr> b a"
    and two: "2 \<le> length l \<or> 2 \<le> length h"
  shows "raises_value_error (backward L T y)"
proof -
  let ?bt = "\<lparr>a_min = Some l, a_max = Some h, shape = sh\<rparr>"
  have "reduced_out_of_range ?bt y = Inr True \<or> (\<exists>m. reduced_out_of_range ?bt y = Inl (ValueError m))"
  proof (cases "reduced_out_of_range ?bt y")
    case (Inl e)
    then show ?thesis using reduced_out_of_range_error[OF Inl] by simp
  next
    case (Inr c)
    show ?thesis
    proof (cases c)
      case True
      then show ?thesis using Inr by simp
    next
      case False
      then have 1: "max_above (Some h) y = Inr False" and 2: "min_below (Some l) y = Inr False"
        using Inr by (auto simp: reduced_out_of_range_def split: sum.splits bool.splits)
      from 1 have "length h \<le> 1"
        by (cases h rule: list_three_cases) (auto simp: max_above_def split: sum.splits)
      moreover from 2 have "length l \<le> 1"
        by (cases l rule: list_three_cases) (auto simp: min_below_def split: sum.splits)
      ultimately show ?thesis using two by simp
    qed
  qed
  then show ?thesis
    using check_shape_cases[of ?bt y] unfolding T by auto
qed

text \<open>
  C2. The round trip fails for an \<open>ArctanBound\<close> one of whose bounds has more than one
  element: whatever the input, \<open>backward\<close> raises a value error, so that
  \<open>backward(forward(x))\<close> is never \<open>x\<close>. The condition of \<open>ArctanBound.backward\<close> compares
  the scalars \<open>np.max(y)\<close> and \<open>np.min(y)\<close> with the bound arrays and takes the truth
  value of the result, which numpy refuses for an array of more than one element;
  \<open>TanhBound.backward\<close> reduces the elementwise comparison with \<open>.any()\<close>.
\<close>

theorem arctan_vector_bounds_never_invert:
  assumes "ArctanBound_init (Some lo) (Some hi) = Inr T"
    and "2 \<le> length (as_array lo) \<or> 2 \<le> length (as_array hi)"
  shows "raises_value_error (backward L T y)"
proof -
  obtain s d where "T = ArctanBound \<lparr>a_min = Some (as_array lo), a_max = Some (as_array hi),
      shape = shape_of (as_array lo)\<rparr> (map (\<lambda>v. v / 2) s) (map (\<lambda>v. v / pi) d)"
    using ArctanBound_init_InrD[OF assms(1)] by auto
  then show ?thesis
    using arctan_backward_vector_bounds[OF _ assms(2)] by blast
qed

theorem arctan_vector_bounds_never_invert_witness:
  "ArctanBound_init (Some (ArrayLike [0, 0])) (Some (ArrayLike [1, 1])) =
     Inr (ArctanBound \<lparr>a_min = Some [0, 0], a_max = Some [1, 1], shape = [2]\<rparr>
            [1 / 2, 1 / 2] [1 / pi, 1 / pi]) \<and>
   2 \<le> length (as_array (ArrayLike [1, 1 :: real])) \<and>
   forward logistic
     (ArctanBound \<lparr>a_min = Some [0, 0], a_max = Some [1, 1], shape = [2]\<rparr>
        [1 / 2, 1 / 2] [1 / pi, 1 / pi])
     [Fin 0, Fin 0] = Inr [Fin (1 / 2), Fin (1 / 2)] \<and>
   raises_value_error (backward logistic
     (ArctanBound \<lparr>a_min = Some [0, 0], a_max = Some [1, 1], shape = [2]\<rparr>
        [1 / 2, 1 / 2] [1 / pi, 1 / pi])
     [Fin (1 / 2), Fin (1 / 2)]) \<and>
   backward logistic
     (ArctanBound \<lparr>a_min = Some [0, 0], a_max = Some [1, 1], shape = [2]\<rparr>
        [1 / 2, 1 / 2] [1 / pi, 1 / pi])
     [Fin (1 / 2), Fin (1 / 2)] = Inl (ValueError AmbiguousTruthValue) \<and>
   TanhBound_init (Some (ArrayLike [0, 0])) (Some (ArrayLike [1, 1])) =
     Inr (TanhBound \<lparr>a_min = Some [0, 0], a_max = Some [1, 1], shape = [2]\<rparr>
            [1 / 2, 1 / 2] [1 / 2, 1 / 2]) \<and>
   forward logistic
     (TanhBound \<lparr>a_min = Some [0, 0], a_max = Some [1, 1], shape = [2]\<rparr>
        [1 / 2, 1 / 2] [1 / 2, 1 / 2])
     [Fin 0, Fin 0] = Inr [Fin (1 / 2), Fin (1 / 2)] \<and>
   backward logistic
     (TanhBound \<lparr>a_min = Some [0, 0], a_max = Some [1, 1], shape = [2]\<rparr>
        [1 / 2, 1 / 2] [1 / 2, 1 / 2])
     [Fin (1 / 2), Fin (1 / 2)] = Inr [Fin 0, Fin 0]"
proof -
  have i: "ArctanBound_init (Some (ArrayLike [0, 0])) (Some (ArrayLike [1, 1])) =
     Inr (ArctanBound \<lparr>a_min = Some [0, 0], a_max = Some [1, 1], shape = [2]\<rparr>
            [1 / 2, 1 / 2] [1 / pi, 1 / pi])"
    by (simp add: init_defs)
  have two: "2 \<le> length (as_array (ArrayLike [0, 0 :: real])) \<or>
      2 \<le> length (as_array (ArrayLike [1, 1 :: real]))"
    by simp
  have r: "forward logistic
     (ArctanBound \<lparr>a_min = Some [0, 0], a_max = Some [1, 1], shape = [2]\<rparr>
        [1 / 2, 1 / 2] [1 / pi, 1 / pi])
     [Fin 0, Fin 0] = Inr [Fin (1 / 2), Fin (1 / 2)]"
    "backward logistic
     (ArctanBound \<lparr>a_min = Some [0, 0], a_max = Some [1, 1], shape = [2]\<rparr>
        [1 / 2, 1 / 2] [1 / pi, 1 / pi])
     [Fin (1 / 2), Fin (1 / 2)] = Inl (ValueError AmbiguousTruthValue)"
    "TanhBound_init (Some (ArrayLike [0, 0])) (Some (ArrayLike [1, 1])) =
     Inr (TanhBound \<lparr>a_min = Some [0, 0], a_max = Some [1, 1], shape = [2]\<rparr>
            [1 / 2, 1 / 2] [1 / 2, 1 / 2])"
    "forward logistic
     (TanhBound \<lparr>a_min = Some [0, 0], a_max = Some [1, 1], shape = [2]\<rparr>
        [1 / 2, 1 / 2] [1 / 2, 1 / 2])
     [Fin 0, Fin 0] = Inr [Fin (1 / 2), Fin (1 / 2)]"
    "backward logistic
     (TanhBound \<lparr>a_min = Some [0, 0], a_max = Some [1, 1], shape = [2]\<rparr>
        [1 / 2, 1 / 2] [1 / 2, 1 / 2])
     [Fin (1 / 2), Fin (1 / 2)] = Inr [Fin 0, Fin 0]"
    by (simp_all add: init_defs run_defs)
  show ?thesis
    using i r arctan_vector_bounds_never_invert[OF i two, of logistic "[Fin (1 / 2), Fin (1 / 2)]"]
    by simp
qed

section \<open>Rounding to binary64\<close>

lemma round_even_abs: "\<bar>of_int (round_even t) - t\<bar> \<le> (1::real)"
  unfolding round_even_def Let_def by (auto; linarith)

lemma powr_neg_int: "2 powr real_of_int (- int n) = 1 / 2 ^ n"
  by (simp add: powr_minus powr_realpow field_simps)

lemma binary64_below_one:
  assumes lo: "1 / 2 ^ j \<le> \<bar>x\<bar>" and hi: "\<bar>x\<bar> < 2 / 2 ^ j" and j: "j \<le> 1022"
  shows "binary64 x = Fin (of_int (round_even (x * 2 ^ (52 + j))) / 2 ^ (52 + j))"
proof -
  have pos: "0 < 1 / (2::real) ^ j" by simp
  have "0 < \<bar>x\<bar>" using lo pos by linarith
  hence x0: "x \<noteq> 0" by simp
  note pw = powr_neg_int [of j]
  have "2 powr real_of_int (- int j + 1) = 2 powr real_of_int (- int j) * 2 powr 1"
    unfolding powr_add [symmetric] by simp
  hence pw1: "2 powr real_of_int (- int j + 1) = 2 / 2 ^ j"
    using pw by simp
  have "2 powr real_of_int (- int j) \<le> \<bar>x\<bar> \<and> \<bar>x\<bar> < 2 powr real_of_int (- int j + 1)"
    unfolding pw pw1 using lo hi by simp
  hence fl: "\<lfloor>log 2 \<bar>x\<bar>\<rfloor> = - int j"
    using floor_log_eq_powr_iff [of "\<bar>x\<bar>" 2 "- int j"] x0 by simp
  have e: "max \<lfloor>log 2 \<bar>x\<bar>\<rfloor> (- 1022) - 52 = - int (52 + j)"
    using fl j by simp
  note pe = powr_neg_int [of "52 + j"]
  let ?m = "round_even (x * 2 ^ (52 + j))"
  have "\<bar>real_of_int ?m\<bar> \<le> \<bar>x * 2 ^ (52 + j)\<bar> + 1"
    using round_even_abs [of "x * 2 ^ (52 + j)"] by linarith
  hence "\<bar>real_of_int ?m / 2 ^ (52 + j)\<bar> \<le> \<bar>x\<bar> + 1 / 2 ^ (52 + j)"
    by (simp add: field_simps abs_mult)
  moreover have "1 \<le> (2::real) ^ j" by simp
  hence "2 / (2::real) ^ j \<le> 2" by (simp add: field_simps)
  hence "\<bar>x\<bar> < 2" using hi by linarith
  moreover have "1 / (2::real) ^ (52 + j) \<le> 1"
    by simp
  moreover have "(2::real) powr 2 \<le> 2 powr 1024"
    by (rule powr_mono) simp_all
  hence "(4::real) \<le> 2 powr 1024"
    by (simp add: powr_numeral)
  ultimately have nov: "\<not> 2 powr 1024 \<le> \<bar>real_of_int ?m / 2 ^ (52 + j)\<bar>"
    by linarith
  show ?thesis
    unfolding binary64_def Let_def e pe using x0 nov by simp
qed


text \<open>The doubles that the literals \<open>0.1\<close>, \<open>0.2\<close> and \<open>0.7\<close> denote.\<close>

lemma double_01: "binary64 (1 / 10) = Fin (3602879701896397 / 36028797018963968)"
  by (subst binary64_below_one [where j = 4]) (simp_all add: round_even_def)

lemma double_07: "binary64 (7 / 10) = Fin (3152519739159347 / 4503599627370496)"
  by (subst binary64_below_one [where j = 1]) (simp_all add: round_even_def)

lemma double_02: "binary64 (1 / 5) = Fin (3602879701896397 / 18014398509481984)"
  by (subst binary64_below_one [where j = 3]) (simp_all add: round_even_def)

text \<open>\<open>tanh(-20)\<close> is within \<open>2 ^ -54\<close> of \<open>-1\<close>, and the nearest double is \<open>-1\<close>.\<close>

lemma exp_40: "(2::real) ^ 55 \<le> exp 40"
proof -
  have "(13 / 8 :: real) \<le> exp (1 / 2)"
    using exp_lower_Taylor_quadratic [of "1 / 2 :: real"] by (simp add: power2_eq_square)
  hence "(13 / 8 :: real) ^ 80 \<le> exp (1 / 2) ^ 80"
    by (rule power_mono) simp
  also have "exp (1 / 2 :: real) ^ 80 = exp (of_nat 80 * (1 / 2))"
    by (rule exp_of_nat_mult [symmetric])
  finally have "(13 / 8 :: real) ^ 80 \<le> exp 40" by simp
  moreover have "(2::real) ^ 55 \<le> (13 / 8) ^ 80" by (simp add: power_divide)
  ultimately show ?thesis by linarith
qed

lemma tanh_minus_20: "- 1 < tanh (- 20 :: real)" "tanh (- 20 :: real) < - 1 + 1 / 2 ^ 54"
proof -
  let ?E = "exp (40 :: real)"
  have E: "(2::real) ^ 55 \<le> ?E" by (rule exp_40)
  have t: "tanh (- 20 :: real) = (1 - ?E) / (1 + ?E)"
    by (simp add: tanh_real_altdef)
  have pos: "0 < 1 + ?E" by (simp add: add_pos_pos)
  have "1 + tanh (- 20 :: real) = 2 / (1 + ?E)"
    unfolding t using pos by (simp add: field_simps)
  moreover have "0 < 2 / (1 + ?E)" using pos by simp
  moreover have "2 / (1 + ?E) < 2 / 2 ^ 55"
    using E by (intro divide_strict_left_mono) (auto simp: add_pos_pos)
  moreover have "(2::real) / 2 ^ 55 = 1 / 2 ^ 54" by simp
  ultimately show "- 1 < tanh (- 20 :: real)" "tanh (- 20 :: real) < - 1 + 1 / 2 ^ 54"
    by linarith+
qed

lemma tanh64_minus_20: "tanh64 (Fin (- 20)) = Fin (- 1)"
proof -
  let ?t = "tanh (- 20 :: real)"
  note b = tanh_minus_20
  have a1: "1 / 2 ^ 1 \<le> \<bar>?t\<bar>" using b by simp
  have a2: "\<bar>?t\<bar> < 2 / 2 ^ 1" using b by simp
  have lo: "- (2 ^ 53) < ?t * 2 ^ 53" using b(1) by simp
  have "(?t + 1) * 2 ^ 53 < 1 / 2 ^ 54 * 2 ^ 53"
    using b(2) by (intro mult_strict_right_mono) auto
  hence hi: "?t * 2 ^ 53 < - (2 ^ 53) + 1 / 2"
    by (simp add: algebra_simps)
  have fl: "\<lfloor>?t * 2 ^ 53\<rfloor> = - (2 ^ 53)"
    using lo hi by (intro floor_unique) auto
  have "round_even (?t * 2 ^ 53) = - (2 ^ 53)"
    unfolding round_even_def Let_def fl using hi by simp
  hence "binary64 ?t = Fin (- 1)"
    by (subst binary64_below_one [where j = 1, OF a1 a2]) simp_all
  thus ?thesis by (simp add: tanh64_def)
qed

lemma binary64_finite:
  assumes "\<bar>x\<bar> < 2 ^ 1023"
  shows "is_finite (binary64 x)"
proof (cases "x = 0")
  case True
  thus ?thesis by (simp add: binary64_def)
next
  case False
  define e where "e = max \<lfloor>log 2 \<bar>x\<bar>\<rfloor> (- 1022) - 52"
  define m where "m = round_even (x / 2 powr of_int e)"
  have "\<bar>x\<bar> < 2 powr 1023"
    using assms by (simp add: powr_numeral)
  hence "log 2 \<bar>x\<bar> < 1023"
    using False by (subst log_less_iff) simp_all
  hence "\<lfloor>log 2 \<bar>x\<bar>\<rfloor> \<le> 1022"
    by linarith
  hence "e \<le> 970"
    unfolding e_def by simp
  hence "2 powr of_int e \<le> (2::real) powr 970"
    by (intro powr_mono) simp_all
  hence pe: "2 powr of_int e \<le> (2::real) ^ 970"
    by (simp add: powr_numeral)
  have p0: "0 < (2::real) powr of_int e" by simp
  have "\<bar>of_int m - x / 2 powr of_int e\<bar> \<le> 1"
    unfolding m_def by (rule round_even_abs)
  hence "\<bar>of_int m - x / 2 powr of_int e\<bar> * 2 powr of_int e \<le> 1 * 2 powr of_int e"
    by (intro mult_right_mono) simp_all
  hence "\<bar>(of_int m - x / 2 powr of_int e) * 2 powr of_int e\<bar> \<le> 2 powr of_int e"
    by (simp add: abs_mult)
  hence "\<bar>of_int m * 2 powr of_int e - x\<bar> \<le> 2 powr of_int e"
    by (simp add: algebra_simps)
  hence "\<bar>of_int m * 2 powr of_int e\<bar> \<le> \<bar>x\<bar> + 2 ^ 970"
    using pe by linarith
  moreover have "(2::real) ^ 1023 + 2 ^ 970 < 2 ^ 1024" by simp
  moreover have "(2::real) powr 1024 = 2 ^ 1024" by (simp add: powr_numeral)
  ultimately have "\<not> 2 powr 1024 \<le> \<bar>real_of_int m * 2 powr real_of_int e\<bar>"
    using assms by linarith
  thus ?thesis
    using False unfolding binary64_def Let_def e_def [symmetric] m_def [symmetric] by simp
qed

text \<open>\<open>TanhBound(0.1, 0.7).forward\<close> on \<open>-20\<close>, operation by operation.\<close>

lemma sum_07_01:
  "fadd64 (Fin (3152519739159347 / 4503599627370496)) (Fin (3602879701896397 / 36028797018963968)) =
     Fin (7205759403792793 / 9007199254740992)"
  unfolding fadd64_def
  by (simp add: fsub_def, subst binary64_below_one [where j = 1]) (simp_all add: round_even_def)

lemma b_07_01:
  "fmul64 (Fin (1 / 2)) (Fin (7205759403792793 / 9007199254740992)) =
     Fin (7205759403792793 / 18014398509481984)"
  unfolding fmul64_def
  by (simp add: fsub_def, subst binary64_below_one [where j = 2]) (simp_all add: round_even_def)

lemma diff_07_01:
  "fsub64 (Fin (3152519739159347 / 4503599627370496)) (Fin (3602879701896397 / 36028797018963968)) =
     Fin (5404319552844595 / 9007199254740992)"
  unfolding fsub64_def
  by (simp add: fsub_def, subst binary64_below_one [where j = 1]) (simp_all add: round_even_def)

lemma a_07_01:
  "fmul64 (Fin (1 / 2)) (Fin (5404319552844595 / 9007199254740992)) =
     Fin (5404319552844595 / 18014398509481984)"
  unfolding fmul64_def
  by (simp add: fsub_def, subst binary64_below_one [where j = 2]) (simp_all add: round_even_def)

lemma prod_07_01:
  "fmul64 (Fin (5404319552844595 / 18014398509481984)) (Fin (- 1)) =
     Fin (- (5404319552844595 / 18014398509481984))"
  unfolding fmul64_def
  by (simp add: fsub_def, subst binary64_below_one [where j = 2]) (simp_all add: round_even_def)

lemma forward_07_01:
  "fadd64 (Fin (7205759403792793 / 18014398509481984)) (Fin (- (5404319552844595 / 18014398509481984))) =
     Fin (900719925474099 / 9007199254740992)"
  unfolding fadd64_def
  by (simp add: fsub_def, subst binary64_below_one [where j = 4]) (simp_all add: round_even_def)

text \<open>
  C3. The bound property fails in binary64: \<open>TanhBound(0.1, 0.7).forward\<close> maps \<open>-20\<close> to
  \<open>0.09999999999999998\<close>, which is less than \<open>a_min\<close>, the double \<open>0.1\<close>; and
  \<open>backward\<close> of the same object rejects that value as out of range. The exact value of
  \<open>_b + _a * tanh(x)\<close> is above \<open>a_min\<close>; \<open>tanh(-20)\<close> rounds to \<open>-1\<close>, and \<open>_b - _a\<close>,
  computed from the rounded \<open>_b\<close> and \<open>_a\<close>, falls two units in the last place short of
  \<open>a_min\<close>.
\<close>

theorem tanh_forward_below_a_min:
  "TanhBound_forward64 (binary64 (1 / 10)) (binary64 (7 / 10)) (Fin (- 20)) =
     Fin (900719925474099 / 9007199254740992) \<and>
   fless (Fin (900719925474099 / 9007199254740992)) (binary64 (1 / 10)) \<and>
   TanhBound_backward64 (binary64 (1 / 10)) (binary64 (7 / 10))
     (Fin (900719925474099 / 9007199254740992)) = Inl (ValueError OutOfRange)"
  by (simp add: TanhBound_forward64_def TanhBound_backward64_def TanhBound_b64_def
      TanhBound_a64_def double_01 double_07 sum_07_01 b_07_01 diff_07_01 a_07_01
      tanh64_minus_20 prod_07_01 forward_07_01)

text \<open>\<open>TanhBound(0.1, 0.2).backward\<close> on its two bounds, operation by operation.\<close>

lemma sum_02_01:
  "fadd64 (Fin (3602879701896397 / 18014398509481984)) (Fin (3602879701896397 / 36028797018963968)) =
     Fin (1351079888211149 / 4503599627370496)"
  unfolding fadd64_def
  by (simp add: fsub_def, subst binary64_below_one [where j = 2]) (simp_all add: round_even_def)

lemma b_02_01:
  "fmul64 (Fin (1 / 2)) (Fin (1351079888211149 / 4503599627370496)) =
     Fin (1351079888211149 / 9007199254740992)"
  unfolding fmul64_def
  by (simp add: fsub_def, subst binary64_below_one [where j = 3]) (simp_all add: round_even_def)

lemma diff_02_01:
  "fsub64 (Fin (3602879701896397 / 18014398509481984)) (Fin (3602879701896397 / 36028797018963968)) =
     Fin (3602879701896397 / 36028797018963968)"
  unfolding fsub64_def
  by (simp add: fsub_def, subst binary64_below_one [where j = 4]) (simp_all add: round_even_def)

lemma a_02_01:
  "fmul64 (Fin (1 / 2)) (Fin (3602879701896397 / 36028797018963968)) =
     Fin (3602879701896397 / 72057594037927936)"
  unfolding fmul64_def
  by (simp add: fsub_def, subst binary64_below_one [where j = 5]) (simp_all add: round_even_def)

lemma num_at_a_max:
  "fsub64 (Fin (3602879701896397 / 18014398509481984)) (Fin (1351079888211149 / 9007199254740992)) =
     Fin (900719925474099 / 18014398509481984)"
  unfolding fsub64_def
  by (simp add: fsub_def, subst binary64_below_one [where j = 5]) (simp_all add: round_even_def)

lemma ratio_at_a_max:
  "fdiv64 (Fin (900719925474099 / 18014398509481984)) (Fin (3602879701896397 / 72057594037927936)) =
     Fin (4503599627370495 / 4503599627370496)"
  unfolding fdiv64_def
  by (simp add: fsub_def, subst binary64_below_one [where j = 1]) (simp_all add: round_even_def)

lemma num_at_a_min:
  "fsub64 (Fin (3602879701896397 / 36028797018963968)) (Fin (1351079888211149 / 9007199254740992)) =
     Fin (- (1801439850948199 / 36028797018963968))"
  unfolding fsub64_def
  by (simp add: fsub_def, subst binary64_below_one [where j = 5]) (simp_all add: round_even_def)

lemma ratio_at_a_min:
  "fdiv64 (Fin (- (1801439850948199 / 36028797018963968))) (Fin (3602879701896397 / 72057594037927936)) =
     Fin (- (4503599627370497 / 4503599627370496))"
  unfolding fdiv64_def
  by (simp add: fsub_def, subst binary64_below_one [where j = 0]) (simp_all add: round_even_def)

lemma arctanh64_finite: "is_finite (arctanh64 (Fin (4503599627370495 / 4503599627370496)))"
proof -
  let ?q = "4503599627370495 / 4503599627370496 :: real"
  have a: "artanh ?q = ln 9007199254740991 / 2"
    by (simp add: artanh_def)
  have "0 \<le> ln (9007199254740991 :: real)"
    by simp
  moreover have "ln (9007199254740991 :: real) \<le> 9007199254740991 - 1"
    by (rule ln_le_minus_one) simp
  ultimately have "\<bar>artanh ?q\<bar> \<le> 2 ^ 53"
    unfolding a by simp
  moreover have "(2::real) ^ 53 < 2 ^ 1023"
    by (rule power_strict_increasing) simp_all
  ultimately have "\<bar>artanh ?q\<bar> < 2 ^ 1023"
    by linarith
  hence "is_finite (binary64 (artanh ?q))"
    by (rule binary64_finite)
  thus ?thesis
    by (simp add: arctanh64_def)
qed

text \<open>
  C10. \<open>TanhBound(0.1, 0.2).backward\<close> accepts its two bounds, and what it returns there
  is not infinite. At \<open>a_max\<close> the quotient \<open>(y - _b) / _a\<close> is \<open>1 - 2 ^ -52\<close>, not \<open>1\<close>,
  and its \<open>arctanh\<close> is finite (numpy gives \<open>18.368\<close>); at \<open>a_min\<close> the quotient is
  \<open>- (1 + 2 ^ -52)\<close>, outside the domain of \<open>arctanh\<close>, and the result is \<open>nan\<close>.
\<close>

theorem tanh_backward_at_bounds:
  "TanhBound_backward64 (binary64 (1 / 10)) (binary64 (1 / 5)) (binary64 (1 / 5)) =
     Inr (arctanh64 (Fin (1 - 1 / 2 ^ 52))) \<and>
   is_finite (arctanh64 (Fin (1 - 1 / 2 ^ 52))) \<and>
   TanhBound_backward64 (binary64 (1 / 10)) (binary64 (1 / 5)) (binary64 (1 / 10)) = Inr NaN"
  using arctanh64_finite
  by (simp add: TanhBound_backward64_def TanhBound_b64_def TanhBound_a64_def double_01
      double_02 sum_02_01 b_02_01 diff_02_01 a_02_01 num_at_a_max ratio_at_a_max num_at_a_min
      ratio_at_a_min arctanh64_def)

end
